theory Spec2Isabelle
  imports Main "HOL-Library.Sublist" "HOL-Library.Log_Nat"
begin

section \<open>Strings and characters of the analysed text\<close>

text \<open>
  The program works on JavaScript strings. A string is modelled as a list of code units
  below 256 (the type \<open>char\<close>), so \<open>length\<close> is the \<open>length\<close> property of the source
  for every text made of such code units. The character classes below are the ones the
  regular expressions of \<open>App.js\<close> use, restricted to that range.
\<close>

definition in_range :: "char \<Rightarrow> char \<Rightarrow> char \<Rightarrow> bool" where
  "in_range lo hi c = ((of_char lo :: nat) \<le> of_char c \<and> (of_char c :: nat) \<le> of_char hi)"

definition is_digit :: "char \<Rightarrow> bool" where
  \<comment> \<open>the class \<open>[0-9]\<close>\<close>
  "is_digit c = in_range CHR ''0'' CHR ''9'' c"

definition is_word :: "char \<Rightarrow> bool" where
  \<comment> \<open>the class \<open>[A-Za-z0-9_]\<close>, which is also what \<open>\<bsol>b\<close> calls a word character\<close>
  "is_word c = (in_range CHR ''A'' CHR ''Z'' c \<or> in_range CHR ''a'' CHR ''z'' c
     \<or> in_range CHR ''0'' CHR ''9'' c \<or> c = CHR ''_'')"

definition is_line_end :: "char \<Rightarrow> bool" where
  \<comment> \<open>line terminators: LF and CR\<close>
  "is_line_end c = (c = CHR 0x0A \<or> c = CHR 0x0D)"

definition is_space :: "char \<Rightarrow> bool" where
  \<comment> \<open>the class \<open>\<bsol>s\<close> and the characters \<open>trim\<close> removes: TAB, LF, VT, FF, CR, space, NBSP\<close>
  "is_space c = (c = CHR 0x09 \<or> c = CHR 0x0A \<or> c = CHR 0x0B \<or> c = CHR 0x0C
     \<or> c = CHR 0x0D \<or> c = CHR 0x20 \<or> c = CHR 0xA0)"

definition any_char :: "char \<Rightarrow> bool" where
  \<comment> \<open>the class \<open>[\<bsol>s\<bsol>S]\<close>\<close>
  "any_char c = True"

definition dot :: "char \<Rightarrow> bool" where
  \<comment> \<open>the class \<open>.\<close>: anything but a line terminator\<close>
  "dot c = (\<not> is_line_end c)"

definition canon :: "bool \<Rightarrow> char \<Rightarrow> char" where
  \<comment> \<open>case folding of the \<open>i\<close> flag: a lower-case ASCII letter is compared as its
      upper-case letter; no other code unit folds onto an ASCII character\<close>
  "canon ci c = (if ci \<and> in_range CHR ''a'' CHR ''z'' c then char_of (of_char c - (32::nat)) else c)"

definition lower_char :: "char \<Rightarrow> char" where
  \<comment> \<open>\<open>toLowerCase\<close> on one code unit: A-Z, and the Latin-1 capitals 0xC0-0xDE but 0xD7\<close>
  "lower_char c = (if in_range CHR ''A'' CHR ''Z'' c \<or> (in_range CHR 0xC0 CHR 0xDE c \<and> c \<noteq> CHR 0xD7)
     then char_of (of_char c + (32::nat)) else c)"

definition toLowerCase :: "string \<Rightarrow> string" where
  "toLowerCase s = map lower_char s"

definition trim_empty :: "string \<Rightarrow> bool" where
  \<comment> \<open>\<open>!s.trim()\<close>: the trimmed string is empty, that is, every character is white space\<close>
  "trim_empty s = list_all is_space s"

fun split_on :: "char \<Rightarrow> string \<Rightarrow> string list" where
  \<comment> \<open>\<open>s.split(c)\<close> for a one-character separator: never the empty list\<close>
  "split_on c [] = [[]]"
| "split_on c (x # xs) =
     (if x = c then [] # split_on c xs
      else (case split_on c xs of [] \<Rightarrow> [[x]] | l # ls \<Rightarrow> (x # l) # ls))"

definition digit_char :: "nat \<Rightarrow> char" where
  "digit_char d = char_of (48 + d)"

fun show_nat :: "nat \<Rightarrow> string" where
  \<comment> \<open>a non-negative integer inside a template literal: its decimal digits\<close>
  "show_nat n = (if n < 10 then [digit_char n] else show_nat (n div 10) @ [digit_char (n mod 10)])"

declare show_nat.simps [simp del]

section \<open>Regular expressions\<close>

text \<open>
  The expressions of the program are values of \<open>rx\<close>. \<open>rx_match\<close> is a backtracking matcher:
  it returns every way the expression matches at a position, as the positions after
  the match, in the order in which a backtracking engine tries them (the left
  alternative first, a greedy repetition longest first, a lazy one shortest first), so
  the head of the list is the match the engine reports. A position is the code unit
  before it (for \<open>\<bsol>b\<close>) and the rest of the input. The first argument is the \<open>i\<close>
  flag: it folds the case of literal characters; classes are compared as they are (the
  two expressions of the program that carry the flag use no class but \<open>\<bsol>s\<close>). A
  repetition gives up an iteration that consumes nothing, as the engine does.
\<close>

datatype rx =
    Lit string            \<comment> \<open>the characters, one after the other\<close>
  | Cls "char \<Rightarrow> bool"     \<comment> \<open>one character of a class\<close>
  | Alt rx rx             \<comment> \<open>\<open>a|b\<close>\<close>
  | Seq rx rx             \<comment> \<open>\<open>ab\<close>\<close>
  | Opt rx                \<comment> \<open>\<open>a?\<close>\<close>
  | Star rx               \<comment> \<open>\<open>a*\<close>\<close>
  | LazyStar rx           \<comment> \<open>\<open>a*?\<close>\<close>
  | WordB                 \<comment> \<open>\<open>\<bsol>b\<close>\<close>
  | Eol                   \<comment> \<open>\<open>$\<close> under the \<open>m\<close> flag\<close>

type_synonym pos = "char option \<times> string"

fun word_before :: "pos \<Rightarrow> bool" where
  "word_before (None, s) = False"
| "word_before (Some c, s) = is_word c"

fun word_after :: "pos \<Rightarrow> bool" where
  "word_after (p, []) = False"
| "word_after (p, x # xs) = is_word x"

fun lit_match :: "bool \<Rightarrow> string \<Rightarrow> pos \<Rightarrow> pos list" where
  "lit_match ci [] p = [p]"
| "lit_match ci (c # cs) (prev, []) = []"
| "lit_match ci (c # cs) (prev, x # xs) =
     (if canon ci x = canon ci c then lit_match ci cs (Some x, xs) else [])"

fun cls_match :: "(char \<Rightarrow> bool) \<Rightarrow> pos \<Rightarrow> pos list" where
  "cls_match P (prev, []) = []"
| "cls_match P (prev, x # xs) = (if P x then [(Some x, xs)] else [])"

fun eol_match :: "pos \<Rightarrow> pos list" where
  "eol_match (prev, []) = [(prev, [])]"
| "eol_match (prev, x # xs) = (if is_line_end x then [(prev, x # xs)] else [])"

function rx_match :: "bool \<Rightarrow> rx \<Rightarrow> pos \<Rightarrow> pos list" where
  "rx_match ci (Lit s) p = lit_match ci s p"
| "rx_match ci (Cls P) p = cls_match P p"
| "rx_match ci (Alt a b) p = rx_match ci a p @ rx_match ci b p"
| "rx_match ci (Seq a b) p = concat (map (rx_match ci b) (rx_match ci a p))"
| "rx_match ci (Opt a) p = rx_match ci a p @ [p]"
| "rx_match ci (Star a) p =
     concat (map (\<lambda>q. if length (snd q) < length (snd p) then rx_match ci (Star a) q else [])
                 (rx_match ci a p)) @ [p]"
| "rx_match ci (LazyStar a) p =
     p # concat (map (\<lambda>q. if length (snd q) < length (snd p) then rx_match ci (LazyStar a) q else [])
                     (rx_match ci a p))"
| "rx_match ci WordB p = (if word_before p \<noteq> word_after p then [p] else [])"
| "rx_match ci Eol p = eol_match p"
  by pat_completeness auto
termination
  by (relation "measures [\<lambda>(ci, r, p). size r, \<lambda>(ci, r, p). length (snd p)]") auto

declare rx_match.simps(6) [simp del] rx_match.simps(7) [simp del]

definition Plus :: "rx \<Rightarrow> rx" where
  \<comment> \<open>\<open>a+\<close>\<close>
  "Plus a = Seq a (Star a)"

definition Alts :: "rx list \<Rightarrow> rx" where
  \<comment> \<open>\<open>a|b|...|z\<close>, for a list that is not empty\<close>
  "Alts rs = foldr Alt (butlast rs) (last rs)"

definition Seqs :: "rx list \<Rightarrow> rx" where
  \<comment> \<open>\<open>ab...z\<close>, for a list that is not empty\<close>
  "Seqs rs = foldr Seq (butlast rs) (last rs)"

text \<open>
  \<open>rx_here\<close> is the match of highest priority at a position, if there is one.
  \<open>rx_test\<close> is \<open>re.test(s)\<close> for an expression without the \<open>g\<close> flag: some position of
  \<open>s\<close> has a match. \<open>rx_segs\<close> is the scan that \<open>match\<close>, \<open>replace\<close> and \<open>split\<close> make with a
  global expression: the leftmost match, then the leftmost match after it, and so on;
  after an empty match the scan moves one character on.
\<close>

definition rx_here :: "bool \<Rightarrow> rx \<Rightarrow> pos \<Rightarrow> pos option" where
  "rx_here ci r p = (case rx_match ci r p of [] \<Rightarrow> None | q # qs \<Rightarrow> Some q)"

fun rx_test_from :: "bool \<Rightarrow> rx \<Rightarrow> char option \<Rightarrow> string \<Rightarrow> bool" where
  "rx_test_from ci r prev [] = (rx_match ci r (prev, []) \<noteq> [])"
| "rx_test_from ci r prev (x # xs) =
     (rx_match ci r (prev, x # xs) \<noteq> [] \<or> rx_test_from ci r (Some x) xs)"

definition rx_test :: "bool \<Rightarrow> rx \<Rightarrow> string \<Rightarrow> bool" where
  "rx_test ci r s = rx_test_from ci r None s"

datatype seg = Plain string | Hit string

function rx_segs :: "bool \<Rightarrow> rx \<Rightarrow> char option \<Rightarrow> string \<Rightarrow> seg list" where
  "rx_segs ci r prev s =
     (case rx_here ci r (prev, s) of
        None \<Rightarrow> (case s of [] \<Rightarrow> [] | x # xs \<Rightarrow> Plain [x] # rx_segs ci r (Some x) xs)
      | Some q \<Rightarrow>
          if length (snd q) < length s
          then Hit (take (length s - length (snd q)) s) # rx_segs ci r (fst q) (snd q)
          else (case s of [] \<Rightarrow> [Hit []]
                | x # xs \<Rightarrow> Hit [] # Plain [x] # rx_segs ci r (Some x) xs))"
  by pat_completeness auto
termination
  by (relation "measure (\<lambda>(ci, r, prev, s). length s)") auto

declare rx_segs.simps [simp del]

fun seg_text :: "seg \<Rightarrow> string" where
  \<comment> \<open>the part of the scanned string that a segment covers\<close>
  "seg_text (Plain t) = t"
| "seg_text (Hit m) = m"

fun seg_hit :: "seg \<Rightarrow> bool" where
  "seg_hit (Hit m) = True"
| "seg_hit (Plain t) = False"

definition match_count :: "bool \<Rightarrow> rx \<Rightarrow> string \<Rightarrow> nat" where
  \<comment> \<open>\<open>(s.match(re) || []).length\<close> for a global expression\<close>
  "match_count ci r s = length (filter seg_hit (rx_segs ci r None s))"

fun seg_subst :: "(string \<Rightarrow> string) \<Rightarrow> seg \<Rightarrow> string" where
  "seg_subst f (Plain t) = t"
| "seg_subst f (Hit m) = f m"

definition rx_replace :: "bool \<Rightarrow> rx \<Rightarrow> (string \<Rightarrow> string) \<Rightarrow> string \<Rightarrow> string" where
  \<comment> \<open>\<open>s.replace(re, f)\<close> for a global expression and a replacement function\<close>
  "rx_replace ci r f s = concat (map (seg_subst f) (rx_segs ci r None s))"

fun split_segs :: "seg list \<Rightarrow> string \<Rightarrow> string list" where
  "split_segs [] cur = [cur]"
| "split_segs (Plain t # ss) cur = split_segs ss (cur @ t)"
| "split_segs (Hit m # ss) cur = cur # split_segs ss []"

definition rx_split :: "bool \<Rightarrow> rx \<Rightarrow> string \<Rightarrow> string list" where
  \<comment> \<open>\<open>s.split(re)\<close> for an expression without groups that never matches the empty
      string: the pieces between the matches\<close>
  "rx_split ci r s = split_segs (rx_segs ci r None s) []"

section \<open>Numbers\<close>

text \<open>
  JavaScript numbers are IEEE-754 doubles. Every integer the program computes (counts of
  matches, lengths, sums of scores) is far below \<open>2^53\<close> for any string an engine can hold,
  so integer arithmetic is exact and modelled by \<open>nat\<close> and \<open>int\<close>. The two divisions and
  the multiplication by \<open>1.2\<close> are not exact: a double is modelled as a pair \<open>(m, e)\<close>
  standing for \<open>m * 2^e\<close>, and each operation rounds its exact result to 53 significant
  bits, ties to even (the exponent range of doubles is never left by these values).
\<close>

type_synonym double = "int \<times> int"

definition round_frac :: "int \<Rightarrow> int \<Rightarrow> int" where
  \<comment> \<open>the integer nearest to \<open>n / d\<close>, ties to the even one (\<open>0 \<le> n\<close>, \<open>0 < d\<close>)\<close>
  "round_frac n d = (let q = n div d; r = n mod d in
     if 2 * r < d then q else if d < 2 * r then q + 1 else if even q then q else q + 1)"

definition ilog2_frac :: "int \<Rightarrow> int \<Rightarrow> int" where
  \<comment> \<open>the integer part of the binary logarithm of \<open>n / d\<close> (\<open>0 < n\<close>, \<open>0 < d\<close>)\<close>
  "ilog2_frac n d = (if d \<le> n then bitlen (n div d) - 1 else - bitlen ((d + n - 1) div n - 1))"

definition to_double :: "int \<Rightarrow> int \<Rightarrow> double" where
  \<comment> \<open>the double nearest to \<open>n / d\<close> (\<open>0 \<le> n\<close>, \<open>0 < d\<close>)\<close>
  "to_double n d = (if n \<le> 0 then (0, 0) else
     let e = ilog2_frac n d - 52 in
     if 0 \<le> e then (round_frac n (d * 2 ^ nat e), e)
     else (round_frac (n * 2 ^ nat (- e)) d, e))"

definition dmul :: "double \<Rightarrow> double \<Rightarrow> double" where
  \<comment> \<open>the product of two doubles, rounded\<close>
  "dmul a b = (let m = fst a * fst b; e = snd a + snd b in
     if 0 \<le> e then to_double (m * 2 ^ nat e) 1 else to_double m (2 ^ nat (- e)))"

definition js_round :: "double \<Rightarrow> int" where
  \<comment> \<open>\<open>Math.round\<close>: the nearest integer, ties upwards\<close>
  "js_round a = (let m = fst a; e = snd a in
     if 0 \<le> e then m * 2 ^ nat e else (2 * m + 2 ^ nat (- e)) div 2 ^ nat (1 - e))"

section \<open>Data model\<close>

datatype ComplexityLevel = Low | Medium | High

text \<open>
  The language is one of the six values of the language selector. The complexity level
  is one of the three strings that the analysis assigns.
\<close>

datatype LanguageTag = java | python | javascript | csharp | cpp | php

record issue =
  type :: string
  detail :: string

record QualityReport =
  maintainability :: int
  commentScore :: int
  complexityScore :: int
  clarityScore :: int
  docCompleteness :: int
  risk :: int

section \<open>Issue scanner: \<open>analyzeIssues\<close>\<close>

definition todo_rx :: rx where
  \<comment> \<open>\<open>/TODO|FIXME|XXX/gi\<close>\<close>
  "todo_rx = Alts [Lit ''TODO'', Lit ''FIXME'', Lit ''XXX'']"

definition comment_token_rx :: rx where
  \<comment> \<open>\<open>/\<bsol>/\<bsol>*|\<bsol>*\<bsol>/|\<bsol>/\<bsol>/|# /g\<close>\<close>
  "comment_token_rx = Alts [Lit ''/*'', Lit ''*/'', Lit ''//'', Lit ''# '']"

definition magic_rx :: rx where
  \<comment> \<open>\<open>/[^A-Za-z0-9_](?:[2-9][0-9]?|[1-9][0-9]{2,})[^A-Za-z0-9_]/g\<close>\<close>
  "magic_rx = Seqs [Cls (\<lambda>c. \<not> is_word c),
     Alt (Seq (Cls (in_range CHR ''2'' CHR ''9'')) (Opt (Cls is_digit)))
         (Seqs [Cls (in_range CHR ''1'' CHR ''9''), Cls is_digit, Cls is_digit, Star (Cls is_digit)]),
     Cls (\<lambda>c. \<not> is_word c)]"

definition deprecated_rx :: rx where
  \<comment> \<open>\<open>/auto_ptr|register|gets\<bsol>s*\<bsol>(/i\<close>\<close>
  "deprecated_rx = Alts [Lit ''auto_ptr'', Lit ''register'',
     Seqs [Lit ''gets'', Star (Cls is_space), Lit ''('']]"

definition null_rx :: rx where
  \<comment> \<open>\<open>/null|NULL|None/\<close>\<close>
  "null_rx = Alts [Lit ''null'', Lit ''NULL'', Lit ''None'']"

definition null_check_rx :: rx where
  \<comment> \<open>\<open>/==\<bsol>s*null|!=\<bsol>s*null|is not None|is None/\<close>\<close>
  "null_check_rx = Alts [Seqs [Lit ''=='', Star (Cls is_space), Lit ''null''],
     Seqs [Lit ''!='', Star (Cls is_space), Lit ''null''], Lit ''is not None'', Lit ''is None'']"

definition opener_rx :: rx where
  \<comment> \<open>\<open>/\<bsol>b(for|while|if|switch)\<bsol>b/\<close>\<close>
  "opener_rx = Seqs [WordB, Alts [Lit ''for'', Lit ''while'', Lit ''if'', Lit ''switch''], WordB]"

definition brace_rx :: rx where
  \<comment> \<open>\<open>/\<bsol>}/\<close>\<close>
  "brace_rx = Lit ''}''"

definition end_rx :: rx where
  \<comment> \<open>\<open>/\<bsol>bend\<bsol>b/\<close>\<close>
  "end_rx = Seqs [WordB, Lit ''end'', WordB]"

definition block_rx :: rx where
  \<comment> \<open>\<open>/\<bsol>bfunction\<bsol>b|\<bsol>bdef\<bsol>b|\<bsol>bpublic\<bsol>b|\<bsol>bprivate\<bsol>b/\<close>\<close>
  "block_rx = Alts [Seqs [WordB, Lit ''function'', WordB], Seqs [WordB, Lit ''def'', WordB],
     Seqs [WordB, Lit ''public'', WordB], Seqs [WordB, Lit ''private'', WordB]]"

definition commentCount_of :: "string \<Rightarrow> nat" where
  \<comment> \<open>\<open>(text.match(/\<bsol>/\<bsol>*|\<bsol>*\<bsol>/|\<bsol>/\<bsol>/|# /g) || []).length\<close>\<close>
  "commentCount_of text = match_count False comment_token_rx text"

definition lineCount_of :: "string \<Rightarrow> nat" where
  \<comment> \<open>\<open>text.split('\<bsol>n').length\<close>\<close>
  "lineCount_of text = length (split_on CHR 0x0A text)"

definition nest_step :: "string \<Rightarrow> int \<times> int \<Rightarrow> int \<times> int" where
  \<comment> \<open>the body of the \<open>forEach\<close> over the lines, on the pair \<open>(depth, maxDepth)\<close>\<close>
  "nest_step l st =
     (let depth = fst st; maxDepth = snd st;
          depth = (if rx_test False opener_rx l then depth + 1 else depth);
          depth = (if rx_test False brace_rx l \<or> rx_test False end_rx l
                   then max 0 (depth - 1) else depth);
          maxDepth = (if maxDepth < depth then depth else maxDepth)
      in (depth, maxDepth))"

definition maxDepth_of :: "string \<Rightarrow> int" where
  "maxDepth_of text = snd (fold nest_step (split_on CHR 0x0A text) (0, 0))"

definition functionBlocks_of :: "string \<Rightarrow> string list" where
  \<comment> \<open>\<open>text.split(/.../).filter(s => s.length > 500)\<close>\<close>
  "functionBlocks_of text = filter (\<lambda>s. 500 < length s) (rx_split False block_rx text)"

definition push_when :: "bool \<Rightarrow> issue \<Rightarrow> issue list \<Rightarrow> issue list" where
  \<comment> \<open>\<open>if (c) issuesFound.push(i)\<close>\<close>
  "push_when c i issuesFound = (if c then issuesFound @ [i] else issuesFound)"

definition analyzeIssues :: "string \<Rightarrow> issue list" where
  "analyzeIssues text =
     (if text = [] then []
      else
        let issuesFound = [];
            todoMatches = match_count True todo_rx text;
            issuesFound = push_when (0 < todoMatches)
              \<lparr>type = ''TODOs'', detail = show_nat todoMatches @ '' TODO/FIXME/XXX markers''\<rparr>
              issuesFound;
            commentCount = commentCount_of text;
            lineCount = lineCount_of text;
            issuesFound = push_when (commentCount < max 1 (lineCount div 10))
              \<lparr>type = ''Missing Comments'',
               detail = show_nat commentCount @ '' comments for '' @ show_nat lineCount @ '' lines''\<rparr>
              issuesFound;
            magicMatches = match_count False magic_rx text;
            issuesFound = push_when (0 < magicMatches)
              \<lparr>type = ''Magic Numbers'',
               detail = show_nat magicMatches @ '' suspicious numeric literals''\<rparr>
              issuesFound;
            issuesFound = push_when (rx_test True deprecated_rx text)
              \<lparr>type = ''Deprecated patterns'', detail = ''Use of deprecated/unsafe APIs detected''\<rparr>
              issuesFound;
            hasNull = rx_test False null_rx text;
            hasNullChecks = rx_test False null_check_rx text;
            issuesFound = push_when (hasNull \<and> \<not> hasNullChecks)
              \<lparr>type = ''Null checks'', detail = ''Possible missing null checks''\<rparr>
              issuesFound;
            maxDepth = maxDepth_of text;
            issuesFound = push_when (4 \<le> maxDepth)
              \<lparr>type = ''Deep nesting'', detail = ''Max nesting depth ~'' @ show_nat (nat maxDepth)\<rparr>
              issuesFound;
            functionBlocks = functionBlocks_of text;
            issuesFound = push_when (0 < length functionBlocks)
              \<lparr>type = ''Long functions'',
               detail = show_nat (length functionBlocks) @ '' very long function(s) detected''\<rparr>
              issuesFound
        in issuesFound)"

definition kind_order :: "string list" where
  \<comment> \<open>the seven kinds, in the order of the checks\<close>
  "kind_order = [''TODOs'', ''Missing Comments'', ''Magic Numbers'', ''Deprecated patterns'',
     ''Null checks'', ''Deep nesting'', ''Long functions'']"

section \<open>Quality score: \<open>calculateQualityScore\<close>\<close>

definition count_type :: "string \<Rightarrow> issue list \<Rightarrow> nat" where
  \<comment> \<open>\<open>foundIssues.filter(i => i.type === t).length\<close>\<close>
  "count_type t foundIssues = length (filter (\<lambda>i. type i = t) foundIssues)"

definition complexityPenalty_of :: "ComplexityLevel \<Rightarrow> int" where
  "complexityPenalty_of complexity =
     (if complexity = High then 30 else (if complexity = Medium then 15 else 5))"

definition nestingPenalty_of :: "issue list \<Rightarrow> int" where
  "nestingPenalty_of foundIssues = min 40 (int (count_type ''Deep nesting'' foundIssues) * 10)"

definition longFuncPenalty_of :: "issue list \<Rightarrow> int" where
  "longFuncPenalty_of foundIssues = min 30 (int (count_type ''Long functions'' foundIssues) * 10)"

definition magicPenalty_of :: "issue list \<Rightarrow> int" where
  "magicPenalty_of foundIssues = min 40 (int (count_type ''Magic Numbers'' foundIssues) * 8)"

definition commentScore_of :: "nat \<Rightarrow> nat \<Rightarrow> int" where
  \<comment> \<open>\<open>Math.min(100, Math.round((commentCount / Math.max(1, lines)) * 100 * 1.2))\<close>\<close>
  "commentScore_of commentCount lines =
     min 100 (js_round (dmul (dmul (to_double (int commentCount) (int (max 1 lines)))
                                   (to_double 100 1))
                             (to_double 6 5)))"

definition calculateQualityScore ::
  "string \<Rightarrow> issue list \<Rightarrow> string \<Rightarrow> ComplexityLevel \<Rightarrow> QualityReport" where
  "calculateQualityScore codeText foundIssues docText complexity =
     (let lines = (if codeText \<noteq> [] then lineCount_of codeText else 0);
          commentCount = commentCount_of codeText;
          commentScore = commentScore_of commentCount lines;
          complexityPenalty = complexityPenalty_of complexity;
          nestingPenalty = nestingPenalty_of foundIssues;
          longFuncPenalty = longFuncPenalty_of foundIssues;
          complexityScore = max 10 (100 - complexityPenalty - nestingPenalty - longFuncPenalty);
          magicPenalty = magicPenalty_of foundIssues;
          missingComments = (if list_ex (\<lambda>i. type i = ''Missing Comments'') foundIssues
                             then 25 else 0);
          clarityScore = max 10 (100 - magicPenalty - missingComments);
          maintainability = js_round (to_double (commentScore + complexityScore + clarityScore) 3);
          docPresence = (if \<not> trim_empty docText then 30 else 0);
          docCompleteness = min 100 (int commentCount * 5 + docPresence);
          issueCount = int (length foundIssues);
          risk = min 100 (issueCount * 15 + complexityPenalty)
      in \<lparr>maintainability = maintainability, commentScore = commentScore,
          complexityScore = complexityScore, clarityScore = clarityScore,
          docCompleteness = docCompleteness, risk = risk\<rparr>)"

section \<open>Structural statistics: the real-time analysis effect\<close>

definition function_rx :: rx where
  \<comment> \<open>\<open>/function|def |public |private |protected |class /g\<close>\<close>
  "function_rx = Alts [Lit ''function'', Lit ''def '', Lit ''public '', Lit ''private '',
     Lit ''protected '', Lit ''class '']"

definition classify :: "nat \<Rightarrow> nat \<Rightarrow> ComplexityLevel" where
  \<comment> \<open>\<open>let complexity = 'Low'\<close> and the two \<open>if\<close> statements after it\<close>
  "classify lines functions =
     (let complexity = Low;
          complexity = (if 50 < lines \<or> 5 < functions then Medium else complexity);
          complexity = (if 100 < lines \<or> 10 < functions then High else complexity)
      in complexity)"

record StructuralStats =
  lines :: nat
  "functions" :: nat
  complexity :: ComplexityLevel

record analysis =
  codeStats :: StructuralStats
  showStats :: bool
  issues :: "issue list"
  qualityReport :: "QualityReport option"

definition realtime_analysis :: "string \<Rightarrow> string \<Rightarrow> analysis" where
  \<comment> \<open>the effect on \<open>[code, documentation]\<close>: the four pieces of state it sets\<close>
  "realtime_analysis code documentation =
     (if \<not> trim_empty code then
        let lines = lineCount_of code;
            functions = match_count False function_rx code;
            complexity = classify lines functions;
            found = analyzeIssues code;
            quality = calculateQualityScore code found documentation complexity
        in \<lparr>codeStats = \<lparr>lines = lines, functions = functions, complexity = complexity\<rparr>,
            showStats = True, issues = found, qualityReport = Some quality\<rparr>
      else
        \<lparr>codeStats = \<lparr>lines = 0, functions = 0, complexity = Low\<rparr>,
         showStats = False, issues = [], qualityReport = None\<rparr>)"

section \<open>Language detection: \<open>detectLanguage\<close>\<close>

definition word_rx :: "string \<Rightarrow> rx" where
  \<comment> \<open>\<open>\<bsol>bw\<bsol>b\<close> for literal characters \<open>w\<close>\<close>
  "word_rx w = Seqs [WordB, Lit w, WordB]"

definition python_rx :: rx where
  \<comment> \<open>\<open>/\<bsol>bdef\<bsol>b|\<bsol>bimport\<bsol>b/\<close>\<close>
  "python_rx = Alts [word_rx ''def'', word_rx ''import'']"

definition javascript_rx :: rx where
  \<comment> \<open>\<open>/\<bsol>bfunction\<bsol>b|\<bsol>bconst\<bsol>b|\<bsol>blet\<bsol>b/\<close>\<close>
  "javascript_rx = Alts [word_rx ''function'', word_rx ''const'', word_rx ''let'']"

definition java_rx :: rx where
  \<comment> \<open>\<open>/\<bsol>bpublic class\<bsol>b|\<bsol>bprivate\<bsol>b|\<bsol>bthrows\<bsol>b/\<close>\<close>
  "java_rx = Alts [word_rx ''public class'', word_rx ''private'', word_rx ''throws'']"

definition csharp_rx :: rx where
  \<comment> \<open>\<open>/\<bsol>busing\<bsol>b|\<bsol>bnamespace\<bsol>b|\<bsol>bconsole\<bsol>.writeline\<bsol>b/\<close>\<close>
  "csharp_rx = Alts [word_rx ''using'', word_rx ''namespace'', word_rx ''console.writeline'']"

definition cpp_rx :: rx where
  \<comment> \<open>\<open>/#include|std::/\<close>\<close>
  "cpp_rx = Alts [Lit ''#include'', Lit ''std::'']"

definition php_rx :: rx where
  \<comment> \<open>\<open>/<\<bsol>?php|\<bsol>becho\<bsol>b/\<close>\<close>
  "php_rx = Alts [Lit ''<?php'', word_rx ''echo'']"

definition detectLanguage :: "LanguageTag \<Rightarrow> string \<Rightarrow> LanguageTag" where
  \<comment> \<open>\<open>language\<close> is the component's current language, which the closure reads\<close>
  "detectLanguage language codeText =
     (if codeText = [] then language
      else let lower = toLowerCase codeText in
        if rx_test False python_rx lower then python
        else if rx_test False javascript_rx lower then javascript
        else if rx_test False java_rx lower then java
        else if rx_test False csharp_rx lower then csharp
        else if rx_test False cpp_rx lower then cpp
        else if rx_test False php_rx lower then php
        else language)"

section \<open>Syntax highlighting: \<open>highlightCode\<close>\<close>

definition replace_char :: "char \<Rightarrow> string \<Rightarrow> string \<Rightarrow> string" where
  \<comment> \<open>\<open>s.replace(/c/g, r)\<close> for a single character \<open>c\<close>\<close>
  "replace_char c r s = concat (map (\<lambda>x. if x = c then r else [x]) s)"

definition esc :: "string \<Rightarrow> string" where
  "esc s = replace_char CHR ''>'' ''&gt;'' (replace_char CHR ''<'' ''&lt;''
             (replace_char CHR ''&'' ''&amp;'' s))"

definition placeholder :: string where
  \<open>placeholder = ''<pre style="margin:0;padding:12px;font-family:ui-monospace, SFMono-Regular, Menlo, Monaco, monospace;">// Preview will appear here</pre>''\<close>

definition pre_open :: string where
  \<open>pre_open = ''<pre style="margin:0;padding:12px;font-family:ui-monospace, SFMono-Regular, Menlo, Monaco, monospace;"><code>''\<close>

definition pre_close :: string where
  "pre_close = ''</code></pre>''"

definition span_open :: "string \<Rightarrow> string" where
  \<open>span_open cls = ''<span class="'' @ cls @ ''">''\<close>

definition span_close :: string where
  "span_close = ''</span>''"

definition hl_comment_rx :: rx where
  \<comment> \<open>\<open>/(\<bsol>/\<bsol>*[\<bsol>s\<bsol>S]*?\<bsol>*\<bsol>/|\<bsol>/\<bsol>/.*$|#.*$)/gm\<close>\<close>
  "hl_comment_rx = Alts [Seqs [Lit ''/*'', LazyStar (Cls any_char), Lit ''*/''],
     Seqs [Lit ''//'', Star (Cls dot), Eol], Seqs [Lit ''#'', Star (Cls dot), Eol]]"

definition hl_string_rx :: rx where
  \<comment> \<open>the three quoted forms: double quotes, single quotes, backticks\<close>
  "hl_string_rx = Alts [
     Seqs [Lit [CHR 0x22], Star (Cls (\<lambda>c. c \<noteq> CHR 0x22)), Lit [CHR 0x22]],
     Seqs [Lit [CHR 0x27], Star (Cls (\<lambda>c. c \<noteq> CHR 0x27)), Lit [CHR 0x27]],
     Seqs [Lit [CHR 0x60], Star (Cls (\<lambda>c. c \<noteq> CHR 0x60)), Lit [CHR 0x60]]]"

definition hl_number_rx :: rx where
  \<comment> \<open>\<open>/\<bsol>b([0-9]+(?:\<bsol>.[0-9]+)?)\<bsol>b/g\<close>\<close>
  "hl_number_rx = Seqs [WordB, Plus (Cls is_digit), Opt (Seq (Lit ''.'') (Plus (Cls is_digit))), WordB]"

definition keywords_common :: "string list" where
  "keywords_common = [''return'', ''const'', ''let'', ''var'', ''if'', ''else'', ''for'', ''while'',
     ''switch'', ''case'', ''break'', ''continue'', ''class'', ''new'', ''throw'', ''try'', ''catch'',
     ''finally'', ''import'', ''from'', ''export'']"

fun keywords_of :: "LanguageTag \<Rightarrow> string list" where
  "keywords_of java = [''public'', ''private'', ''protected'', ''void'', ''throws'', ''implements'', ''extends'']"
| "keywords_of python = [''def'', ''None'', ''True'', ''False'', ''self'', ''elif'', ''lambda'', ''with'', ''as'']"
| "keywords_of javascript = [''async'', ''await'', ''=>'', ''function'']"
| "keywords_of cpp = [''#include'', ''std::'', ''template'', ''typename'', ''constexpr'']"
| "keywords_of php = [''<?php'', ''echo'', ''$this'']"
| "keywords_of csharp = [''using'', ''namespace'', ''Console'', ''static'']"

fun set_order :: "string list \<Rightarrow> string list" where
  \<comment> \<open>the iteration order of \<open>new Set(xs)\<close>: each element once, at its first occurrence\<close>
  "set_order [] = []"
| "set_order (x # xs) = x # set_order (filter (\<lambda>y. y \<noteq> x) xs)"

definition hl_keyword :: "string \<Rightarrow> string \<Rightarrow> string" where
  \<comment> \<open>the body of the \<open>forEach\<close> over the keywords: the keyword, with its special
      characters escaped, between two \<open>\<bsol>b\<close>; the replacement is a string, and no keyword
      holds one of the patterns (\<open>$&\<close>, \<open>$1\<close>, ...) that \<open>replace\<close> would expand in it\<close>
  "hl_keyword k html =
     rx_replace False (word_rx k)
       (\<lambda>m. span_open ''text-purple-300 font-semibold'' @ k @ span_close) html"

definition highlightCode :: "string \<Rightarrow> LanguageTag \<Rightarrow> string" where
  "highlightCode text lang =
     (if text = [] then placeholder
      else
        let html = esc text;
            html = rx_replace False hl_comment_rx
                     (\<lambda>m. span_open ''text-slate-400'' @ esc m @ span_close) html;
            html = rx_replace False hl_string_rx
                     (\<lambda>m. span_open ''text-green-300'' @ esc m @ span_close) html;
            html = rx_replace False hl_number_rx
                     (\<lambda>m. span_open ''text-yellow-300'' @ m @ span_close) html;
            allKeywords = set_order (keywords_common @ keywords_of lang);
            html = fold hl_keyword allKeywords html
        in pre_open @ html @ pre_close)"

section \<open>Notions used to state the properties\<close>

text \<open>
  \<open>strip_tags\<close> removes the markup from a string of HTML: every tag, from a \<open><\<close> to the
  next \<open>>\<close>. It is the reading of "ignoring markup" used below; the program has no such
  function.
\<close>

fun strip_tags_from :: "bool \<Rightarrow> string \<Rightarrow> string" where
  "strip_tags_from in_tag [] = []"
| "strip_tags_from in_tag (c # cs) =
     (if in_tag then (if c = CHR ''>'' then strip_tags_from False cs else strip_tags_from True cs)
      else (if c = CHR ''<'' then strip_tags_from True cs else c # strip_tags_from False cs))"

definition strip_tags :: "string \<Rightarrow> string" where
  "strip_tags s = strip_tags_from False s"

text \<open>
  \<open>small_literals\<close> holds of a text whose every decimal digit is \<open>0\<close> or \<open>1\<close> and is not
  followed by another digit: every numeric literal of the text is the single digit 0 or
  the single digit 1.
\<close>

fun small_literals :: "string \<Rightarrow> bool" where
  "small_literals [] = True"
| "small_literals (c # cs) =
     ((if is_digit c
       then (c = CHR ''0'' \<or> c = CHR ''1'') \<and> (case cs of [] \<Rightarrow> True | d # ds \<Rightarrow> \<not> is_digit d)
       else True)
      \<and> small_literals cs)"

text \<open>
  \<open>single_digits\<close> holds of a text whose every decimal digit stands between two
  characters that are neither letters, digits nor underscores: every numeric literal is
  a single digit, bounded on both sides.
\<close>

fun single_digits_from :: "char option \<Rightarrow> string \<Rightarrow> bool" where
  "single_digits_from prev [] = True"
| "single_digits_from prev (c # cs) =
     ((if is_digit c
       then (case prev of None \<Rightarrow> False | Some p \<Rightarrow> \<not> is_word p)
          \<and> (case cs of [] \<Rightarrow> False | d # ds \<Rightarrow> \<not> is_word d)
       else True)
      \<and> single_digits_from (Some c) cs)"

definition single_digits :: "string \<Rightarrow> bool" where
  "single_digits s = single_digits_from None s"

text \<open>
  \<open>sc_run\<close> runs the automaton that looks for the characters \<open><sc\<close>: state 3 means that
  they have been read, states 1 and 2 that \<open><\<close> and \<open><s\<close> have just been read.
\<close>

fun sc_step :: "nat \<Rightarrow> char \<Rightarrow> nat" where
  "sc_step q c =
     (if q = 3 then 3
      else if c = CHR ''<'' then 1
      else if q = 1 \<and> c = CHR ''s'' then 2
      else if q = 2 \<and> c = CHR ''c'' then 3
      else 0)"

definition sc_run :: "nat \<Rightarrow> string \<Rightarrow> nat" where
  "sc_run q s = foldl sc_step q s"





text \<open>An input with four consecutive lines that open a block and close none.\<close>

definition four_ifs :: string where
  "four_ifs = ''if a'' @ [CHR 0x0A] @ ''for b'' @ [CHR 0x0A] @ ''while c'' @ [CHR 0x0A] @ ''switch d''"

text \<open>
  The opening tag that the keyword step inserts. \<open>tagged ts s\<close> holds of a string \<open>s\<close> that
  is made of characters other than \<open><\<close> and \<open>>\<close> and of whole tags taken from \<open>ts\<close>: markup
  in which every tag is intact.
\<close>

definition kw_open :: string where
  "kw_open = span_open ''text-purple-300 font-semibold''"





definition sq :: string where
  \<open>sq = ''"<script>"''\<close>

definition sq1 :: string where
  \<open>sq1 = ''<span class="text-green-300">"&amp;lt;script&amp;gt;"</span>''\<close>

definition sq2 :: string where
  \<open>sq2 = ''<span class="text-green-<span class="text-yellow-300">300</span>">"&amp;lt;script&amp;gt;"</span>''\<close>

definition sq3 :: string where
  \<open>sq3 = ''<span <span class="text-purple-300 font-semibold">class</span>="text-green-<span <span class="text-purple-300 font-semibold">class</span>="text-yellow-300">300</span>">"&amp;lt;script&amp;gt;"</span>''\<close>

definition seven1 :: string where
  \<open>seven1 = ''<span class="text-yellow-300">7</span>''\<close>

definition seven2 :: string where
  \<open>seven2 = ''<span <span class="text-purple-300 font-semibold">class</span>="text-yellow-300">7</span>''\<close>

definition if1 :: string where
  \<open>if1 = ''<span class="text-purple-300 font-semibold">if</span>''\<close>

definition if2 :: string where
  \<open>if2 = ''<span <span class="text-purple-300 font-semibold">class</span>="text-purple-300 font-semibold">if</span>''\<close>

definition hash1 :: string where
  \<open>hash1 = ''<span class="text-slate-400">#</span>''\<close>

definition hash2 :: string where
  \<open>hash2 = ''<span class=<span class="text-green-300">"text-slate-400"</span>>#</span>''\<close>

definition hash3 :: string where
  \<open>hash3 = ''<span class=<span class="text-green-<span class="text-yellow-300">300</span>">"text-slate-<span class="text-yellow-300">400</span>"</span>>#</span>''\<close>

definition hash4 :: string where
  \<open>hash4 = ''<span <span class="text-purple-300 font-semibold">class</span>=<span <span class="text-purple-300 font-semibold">class</span>="text-green-<span <span class="text-purple-300 font-semibold">class</span>="text-yellow-300">300</span>">"text-slate-<span <span class="text-purple-300 font-semibold">class</span>="text-yellow-300">400</span>"</span>>#</span>''\<close>

section \<open>Properties of the matcher\<close>

lemma lit_match_suffix: "q \<in> set (lit_match ci cs p) \<Longrightarrow> suffix (snd q) (snd p)"
proof (induction ci cs p rule: lit_match.induct)
  case (3 ci c cs prev x xs)
  then show ?case by (auto split: if_splits intro: suffix_ConsI)
qed auto

lemma cls_match_suffix: "q \<in> set (cls_match P p) \<Longrightarrow> suffix (snd q) (snd p)"
  by (induction P p rule: cls_match.induct) (auto split: if_splits intro: suffix_ConsI)

lemma eol_match_suffix: "q \<in> set (eol_match p) \<Longrightarrow> suffix (snd q) (snd p)"
  by (induction p rule: eol_match.induct) (auto split: if_splits)

lemma rx_match_suffix: "q \<in> set (rx_match ci r p) \<Longrightarrow> suffix (snd q) (snd p)"
proof (induction ci r p arbitrary: q rule: rx_match.induct)
  case (1 ci s p) then show ?case by (simp add: lit_match_suffix)
next
  case (2 ci P p) then show ?case by (simp add: cls_match_suffix)
next
  case (3 ci a b p)
  from 3(3) have "q \<in> set (rx_match ci a p) \<or> q \<in> set (rx_match ci b p)" by simp
  then show ?case using 3(1) 3(2) by blast
next
  case (4 ci a b p)
  then obtain q1 where "q1 \<in> set (rx_match ci a p)" "q \<in> set (rx_match ci b q1)" by auto
  with 4 show ?case by (meson suffix_order.order_trans)
next
  case (5 ci a p)
  from 5(2) have "q \<in> set (rx_match ci a p) \<or> q = p" by auto
  then show ?case using 5(1) by blast
next
  case (6 ci a p)
  show ?case
  proof (cases "q = p")
    case True then show ?thesis by simp
  next
    case False
    from 6(3) have "q \<in> set (concat (map (\<lambda>q. if length (snd q) < length (snd p)
        then rx_match ci (Star a) q else []) (rx_match ci a p)) @ [p])"
      by (subst (asm) rx_match.simps(6))
    with False obtain q1 where q1: "q1 \<in> set (rx_match ci a p)" "length (snd q1) < length (snd p)"
      "q \<in> set (rx_match ci (Star a) q1)" by (auto split: if_splits)
    from 6(1) [OF q1(1)] 6(2) [OF q1(1) q1(2) q1(3)] show ?thesis
      by (meson suffix_order.order_trans)
  qed
next
  case (7 ci a p)
  show ?case
  proof (cases "q = p")
    case True then show ?thesis by simp
  next
    case False
    from 7(3) have "q \<in> set (p # concat (map (\<lambda>q. if length (snd q) < length (snd p)
        then rx_match ci (LazyStar a) q else []) (rx_match ci a p)))"
      by (subst (asm) rx_match.simps(7))
    with False obtain q1 where q1: "q1 \<in> set (rx_match ci a p)" "length (snd q1) < length (snd p)"
      "q \<in> set (rx_match ci (LazyStar a) q1)" by (auto split: if_splits)
    from 7(1) [OF q1(1)] 7(2) [OF q1(1) q1(2) q1(3)] show ?thesis
      by (meson suffix_order.order_trans)
  qed
next
  case (8 ci p) then show ?case by (auto split: if_splits)
next
  case (9 ci p) then show ?case by (simp add: eol_match_suffix)
qed

lemma rx_here_suffix: "rx_here ci r p = Some q \<Longrightarrow> suffix (snd q) (snd p)"
proof -
  assume "rx_here ci r p = Some q"
  then have "q \<in> set (rx_match ci r p)"
    by (auto simp: rx_here_def split: list.splits)
  then show ?thesis by (rule rx_match_suffix)
qed

lemma take_suffix: "suffix t s \<Longrightarrow> take (length s - length t) s @ t = s"
  by (auto simp: suffix_def)

lemma rx_segs_text: "concat (map seg_text (rx_segs ci r prev s)) = s"
proof (induction ci r prev s rule: rx_segs.induct)
  case (1 ci r prev s)
  show ?case
  proof (cases "rx_here ci r (prev, s)")
    case None
    with 1(1) show ?thesis by (subst rx_segs.simps) (auto split: list.splits)
  next
    case (Some q)
    show ?thesis
    proof (cases "length (snd q) < length s")
      case True
      from rx_here_suffix [OF Some] have "suffix (snd q) s" by simp
      then have "take (length s - length (snd q)) s @ snd q = s" by (rule take_suffix)
      with 1(2) [OF Some True] Some True show ?thesis
        by (subst rx_segs.simps) simp
    next
      case False
      with 1(3) [OF Some False] Some show ?thesis
        by (subst rx_segs.simps) (auto split: list.splits)
    qed
  qed
qed

lemma rx_segs_no_match:
  "\<not> rx_test_from ci r prev s \<Longrightarrow> rx_segs ci r prev s = map (\<lambda>x. Plain [x]) s"
proof (induction s arbitrary: prev)
  case Nil
  then show ?case by (simp add: rx_segs.simps [of ci r prev "[]"] rx_here_def)
next
  case (Cons x xs)
  then show ?case by (simp add: rx_segs.simps [of ci r prev "x # xs"] rx_here_def)
qed

lemma rx_replace_no_match: "\<not> rx_test ci r s \<Longrightarrow> rx_replace ci r f s = s"
  by (simp add: rx_replace_def rx_test_def rx_segs_no_match comp_def)

lemma rx_segs_hit_iff:
  "list_ex seg_hit (rx_segs ci r prev s) \<longleftrightarrow> rx_test_from ci r prev s"
proof (induction s arbitrary: prev)
  case Nil
  show ?case by (simp add: rx_segs.simps [of ci r prev "[]"] rx_here_def split: list.splits)
next
  case (Cons x xs)
  show ?case
  proof (cases "rx_match ci r (prev, x # xs)")
    case Nil
    with Cons show ?thesis by (simp add: rx_segs.simps [of ci r prev "x # xs"] rx_here_def)
  next
    case (Cons q qs)
    then show ?thesis by (simp add: rx_segs.simps [of ci r prev "x # xs"] rx_here_def)
  qed
qed

lemma match_count_pos_iff: "0 < match_count ci r s \<longleftrightarrow> rx_test ci r s"
  unfolding match_count_def rx_test_def rx_segs_hit_iff [symmetric]
  by (simp add: list_ex_iff filter_empty_conv)

lemma rx_test_from_append:
  "rx_match ci r (if s1 = [] then prev else Some (last s1), s2) \<noteq> [] \<Longrightarrow>
   rx_test_from ci r prev (s1 @ s2)"
proof (induction s1 arbitrary: prev)
  case Nil
  then show ?case by (cases s2) simp_all
next
  case (Cons x xs)
  from Cons.prems have "rx_match ci r (if xs = [] then Some x else Some (last xs), s2) \<noteq> []"
    by (auto split: if_splits)
  from Cons.IH [OF this] show ?case by simp
qed

section \<open>Properties of the number model\<close>

lemma round_frac_nonneg: "0 \<le> n \<Longrightarrow> 0 < d \<Longrightarrow> 0 \<le> round_frac n d"
  by (simp add: round_frac_def Let_def pos_imp_zdiv_nonneg_iff)

lemma round_frac_le: 
  assumes "0 < d" "n \<le> N * d" shows "round_frac n d \<le> N"
proof -
  have q: "n div d \<le> N" using assms
    using zdiv_mono1 [of n "N * d" d] by simp
  show ?thesis
  proof (cases "n div d = N")
    case True
    have "n = d * (n div d) + n mod d" by simp
    with True assms have "n mod d \<le> 0" by (simp add: mult.commute)
    moreover have "0 \<le> n mod d" using assms by simp
    ultimately have "n mod d = 0" by simp
    with True assms show ?thesis by (simp add: round_frac_def Let_def)
  next
    case False
    with q have "n div d + 1 \<le> N" by simp
    with q show ?thesis by (simp add: round_frac_def Let_def)
  qed
qed

lemma to_double_nonneg: "0 < d \<Longrightarrow> 0 \<le> fst (to_double n d)"
  by (simp add: to_double_def Let_def round_frac_nonneg)

lemma dmul_nonneg: "0 \<le> fst a \<Longrightarrow> 0 \<le> fst b \<Longrightarrow> 0 \<le> fst (dmul a b)"
  by (simp add: dmul_def Let_def to_double_nonneg)

lemma js_round_nonneg: "0 \<le> fst a \<Longrightarrow> 0 \<le> js_round a"
  by (simp add: js_round_def Let_def pos_imp_zdiv_nonneg_iff)

lemma commentScore_bounds: "0 \<le> commentScore_of c l \<and> commentScore_of c l \<le> 100"
  by (simp add: commentScore_of_def js_round_nonneg dmul_nonneg to_double_nonneg)

lemma ilog2_frac_le: 
  assumes "0 < n" "0 < d" "n \<le> 100 * d" shows "ilog2_frac n d \<le> 6"
proof (cases "d \<le> n")
  case True
  have "n div d \<le> 100" using assms
    using zdiv_mono1 [of n "100 * d" d] by simp
  then have "bitlen (n div d) \<le> bitlen 100"
    unfolding bitlen_def by (intro floorlog_mono of_nat_mono nat_mono | simp)+
  also have "bitlen 100 = 7" by (simp add: compute_bitlen)
  finally show ?thesis using True by (simp add: ilog2_frac_def)
next
  case False
  have "0 \<le> bitlen ((d + n - 1) div n - 1)" by (rule bitlen_nonneg)
  with False show ?thesis by (simp add: ilog2_frac_def)
qed

lemma third_le_100:
  assumes "0 \<le> s" "s \<le> 300" shows "js_round (to_double s 3) \<le> 100"
proof (cases "s = 0")
  case True then show ?thesis by (simp add: to_double_def js_round_def)
next
  case False
  with assms have pos: "0 < s" by simp
  define e where "e = ilog2_frac s 3 - 52"
  have "ilog2_frac s 3 \<le> 6" using pos assms by (intro ilog2_frac_le) auto
  then have e: "e < 0" by (simp add: e_def)
  define k where "k = nat (- e)"
  have td: "to_double s 3 = (round_frac (s * 2 ^ k) 3, e)"
    using pos e by (simp add: to_double_def Let_def e_def[symmetric] k_def)
  have m: "round_frac (s * 2 ^ k) 3 \<le> 100 * 2 ^ k"
    using assms by (intro round_frac_le) auto
  have k1: "nat (1 - e) = Suc k" using e by (simp add: k_def)
  have "(2 * round_frac (s * 2 ^ k) 3 + 2 ^ k) div 2 ^ Suc k \<le> (201 * 2 ^ k) div 2 ^ Suc k"
    using m by (intro zdiv_mono1) auto
  also have "(201 * 2 ^ k) div 2 ^ Suc k = (201::int) div 2" by simp
  finally show ?thesis using e by (simp add: td js_round_def Let_def k1 k_def[symmetric])
qed

section \<open>Properties of the scorer and of the classification\<close>

text \<open>
  C4. Every one of the six scores that \<open>calculateQualityScore\<close> returns is an integer
  between 0 and 100, and \<open>complexityScore\<close> and \<open>clarityScore\<close> are never below 10. The
  scores are integers by construction (each is the result of \<open>Math.round\<close> or of integer
  arithmetic); the bounds hold for every code text, empty or not, every list of issues,
  every documentation text and every complexity level.
\<close>

theorem quality_scores_in_range:
  "0 \<le> maintainability (calculateQualityScore codeText foundIssues docText level)
   \<and> maintainability (calculateQualityScore codeText foundIssues docText level) \<le> 100
   \<and> 0 \<le> commentScore (calculateQualityScore codeText foundIssues docText level)
   \<and> commentScore (calculateQualityScore codeText foundIssues docText level) \<le> 100
   \<and> 10 \<le> complexityScore (calculateQualityScore codeText foundIssues docText level)
   \<and> complexityScore (calculateQualityScore codeText foundIssues docText level) \<le> 100
   \<and> 10 \<le> clarityScore (calculateQualityScore codeText foundIssues docText level)
   \<and> clarityScore (calculateQualityScore codeText foundIssues docText level) \<le> 100
   \<and> 0 \<le> docCompleteness (calculateQualityScore codeText foundIssues docText level)
   \<and> docCompleteness (calculateQualityScore codeText foundIssues docText level) \<le> 100
   \<and> 0 \<le> risk (calculateQualityScore codeText foundIssues docText level)
   \<and> risk (calculateQualityScore codeText foundIssues docText level) \<le> 100"
proof -
  define c where "c = commentScore_of (commentCount_of codeText)
                        (if codeText \<noteq> [] then lineCount_of codeText else 0)"
  define x where "x = max 10 (100 - complexityPenalty_of level - nestingPenalty_of foundIssues
                        - longFuncPenalty_of foundIssues)"
  define y where "y = max 10 (100 - magicPenalty_of foundIssues
                        - (if list_ex (\<lambda>i. type i = ''Missing Comments'') foundIssues then 25 else 0))"
  have c: "0 \<le> c" "c \<le> 100"
    using commentScore_bounds by (simp_all add: c_def)
  have pen: "0 \<le> complexityPenalty_of level" "0 \<le> nestingPenalty_of foundIssues"
    "0 \<le> longFuncPenalty_of foundIssues" "0 \<le> magicPenalty_of foundIssues"
    by (simp_all add: complexityPenalty_of_def nestingPenalty_of_def longFuncPenalty_of_def
        magicPenalty_of_def)
  have x: "10 \<le> x" "x \<le> 100" using pen by (simp_all add: x_def)
  have y: "10 \<le> y" "y \<le> 100" using pen by (simp_all add: y_def)
  have m1: "0 \<le> js_round (to_double (c + x + y) 3)"
    by (simp add: js_round_nonneg to_double_nonneg)
  have m2: "js_round (to_double (c + x + y) 3) \<le> 100"
    using c x y by (intro third_le_100) simp_all
  show ?thesis
    using c x y m1 m2 pen
    by (simp add: calculateQualityScore_def Let_def c_def[symmetric] x_def[symmetric]
        y_def[symmetric])
qed

text \<open>
  C10. The risk score is at least 5 for every code text, list of issues, documentation
  text and complexity level: the complexity penalty added into it is 5, 15 or 30, so
  the risk is not 0 even when the list of issues is empty.
\<close>

theorem risk_at_least_five:
  "5 \<le> risk (calculateQualityScore codeText foundIssues docText level)
   \<and> 5 \<le> complexityPenalty_of level
   \<and> risk (calculateQualityScore codeText [] docText Low) = 5"
  by (simp add: calculateQualityScore_def Let_def complexityPenalty_of_def)

text \<open>
  C5. The statistics that the real-time analysis stores are the number of lines and the
  number of function matches of the text (both 0 for a text of white space only, which
  is not analysed), and they classify the complexity from these two counts: High
  exactly when there are more than 100 lines
  or more than 10 function matches, otherwise Medium exactly when there are more than 50
  lines or more than 5 function matches, otherwise Low. The later assignment of High
  overrides the earlier one of Medium. 101 lines and no function give High, 60 lines
  and no function give Medium, 10 lines and one function give Low.
\<close>

theorem complexity_classification:
  "lines (codeStats (realtime_analysis code documentation)) =
     (if trim_empty code then 0 else lineCount_of code)
   \<and> functions (codeStats (realtime_analysis code documentation)) =
     (if trim_empty code then 0 else match_count False function_rx code)
   \<and> complexity (codeStats (realtime_analysis code documentation)) =
     (if 100 < lines (codeStats (realtime_analysis code documentation))
         \<or> 10 < functions (codeStats (realtime_analysis code documentation)) then High
      else if 50 < lines (codeStats (realtime_analysis code documentation))
         \<or> 5 < functions (codeStats (realtime_analysis code documentation)) then Medium
      else Low)
   \<and> classify l f = (if 100 < l \<or> 10 < f then High else if 50 < l \<or> 5 < f then Medium else Low)
   \<and> classify 101 0 = High \<and> classify 60 0 = Medium \<and> classify 10 1 = Low"
  by (simp add: realtime_analysis_def classify_def Let_def)

section \<open>Properties of the issue scanner\<close>

lemma map_type_push_when:
  "map type (push_when c \<lparr>type = t, detail = d\<rparr> xs) = map type xs @ (if c then [t] else [])"
  by (simp add: push_when_def)

lemma analyzeIssues_types:
  "text \<noteq> [] \<Longrightarrow> map type (analyzeIssues text) =
     (if 0 < match_count True todo_rx text then [''TODOs''] else [])
   @ (if commentCount_of text < max 1 (lineCount_of text div 10) then [''Missing Comments''] else [])
   @ (if 0 < match_count False magic_rx text then [''Magic Numbers''] else [])
   @ (if rx_test True deprecated_rx text then [''Deprecated patterns''] else [])
   @ (if rx_test False null_rx text \<and> \<not> rx_test False null_check_rx text then [''Null checks''] else [])
   @ (if 4 \<le> maxDepth_of text then [''Deep nesting''] else [])
   @ (if 0 < length (functionBlocks_of text) then [''Long functions''] else [])"
  by (simp add: analyzeIssues_def Let_def map_type_push_when split del: if_split)

lemma opt_subseq: "subseq xs ys \<Longrightarrow> subseq ((if b then [k] else []) @ xs) (k # ys)"
  by auto

lemma analyzeIssues_subseq: "subseq (map type (analyzeIssues text)) kind_order"
proof (cases "text = []")
  case True then show ?thesis by (simp add: analyzeIssues_def)
next
  case False
  have "subseq [] ([]::string list)" by simp
  then show ?thesis
    unfolding analyzeIssues_types [OF False] kind_order_def
    by (intro opt_subseq [where xs = "[]", simplified] opt_subseq)
qed

lemma distinct_kind_order: "distinct kind_order"
  by (simp add: kind_order_def)

lemma subseq_distinct: "subseq xs ys \<Longrightarrow> distinct ys \<Longrightarrow> distinct xs"
  by (auto simp: subseq_conv_nths)

lemma distinct_count_le_one: "distinct xs \<Longrightarrow> length (filter (\<lambda>x. x = k) xs) \<le> 1"
  by (induction xs) (auto simp: filter_empty_conv)

lemma count_type_map: "count_type k xs = length (filter (\<lambda>x. x = k) (map type xs))"
  by (simp add: count_type_def filter_map comp_def)

lemma count_type_le_one: "count_type k (analyzeIssues text) \<le> 1"
proof -
  have "distinct (map type (analyzeIssues text))"
    by (rule subseq_distinct [OF analyzeIssues_subseq distinct_kind_order])
  then have "length (filter (\<lambda>x. x = k) (map type (analyzeIssues text))) \<le> 1"
    by (rule distinct_count_le_one)
  then show ?thesis by (simp add: count_type_map)
qed

lemma filter_opt:
  "filter P (if b then [x] else []) = (if P x then (if b then [x] else []) else [])"
  by (cases b) simp_all

lemma count_deep: "count_type ''Deep nesting'' (analyzeIssues text) =
    (if text \<noteq> [] \<and> 4 \<le> maxDepth_of text then 1 else 0)"
proof (cases "text = []")
  case True then show ?thesis by (simp add: analyzeIssues_def count_type_def)
next
  case False
  show ?thesis
    unfolding count_type_map analyzeIssues_types [OF False] filter_append filter_opt
    using False by simp
qed

lemma count_long: "count_type ''Long functions'' (analyzeIssues text) =
    (if text \<noteq> [] \<and> functionBlocks_of text \<noteq> [] then 1 else 0)"
proof (cases "text = []")
  case True then show ?thesis by (simp add: analyzeIssues_def count_type_def)
next
  case False
  show ?thesis
    unfolding count_type_map analyzeIssues_types [OF False] filter_append filter_opt
    using False by simp
qed

lemma count_magic: "count_type ''Magic Numbers'' (analyzeIssues text) =
    (if text \<noteq> [] \<and> 0 < match_count False magic_rx text then 1 else 0)"
proof (cases "text = []")
  case True then show ?thesis by (simp add: analyzeIssues_def count_type_def)
next
  case False
  show ?thesis
    unfolding count_type_map analyzeIssues_types [OF False] filter_append filter_opt
    using False by simp
qed

text \<open>
  C8. The scanner returns at most one issue of any kind, so the penalties that the scorer
  derives from the number of issues of a kind take two values only: the nesting penalty
  is 10 when the maximal depth reaches 4 and 0 otherwise, the long-function penalty is
  10 when some block is longer than 500 characters and 0 otherwise, and the magic-number
  penalty is 8 when the expression matches at least once and 0 otherwise, whatever the
  counts written into the detail strings.
\<close>

theorem one_issue_per_kind:
  "count_type k (analyzeIssues text) \<le> 1
   \<and> nestingPenalty_of (analyzeIssues text) =
        (if text \<noteq> [] \<and> 4 \<le> maxDepth_of text then 10 else 0)
   \<and> longFuncPenalty_of (analyzeIssues text) =
        (if text \<noteq> [] \<and> functionBlocks_of text \<noteq> [] then 10 else 0)
   \<and> magicPenalty_of (analyzeIssues text) =
        (if text \<noteq> [] \<and> 0 < match_count False magic_rx text then 8 else 0)"
  using count_type_le_one [of k "text"]
  by (simp add: nestingPenalty_of_def longFuncPenalty_of_def
      magicPenalty_of_def count_deep count_long count_magic)

text \<open>
  C9. The kinds of the issues that the scanner returns form a subsequence of the fixed
  list TODOs, Missing Comments, Magic Numbers, Deprecated patterns, Null checks, Deep
  nesting, Long functions (whose members are distinct): the kinds that are present keep
  this relative order. On the empty string the scanner returns the empty list.
\<close>

theorem issues_in_fixed_order:
  "subseq (map type (analyzeIssues text)) kind_order \<and> distinct kind_order \<and> analyzeIssues [] = []"
  by (simp add: analyzeIssues_subseq distinct_kind_order) (simp add: analyzeIssues_def)

section \<open>Evaluation on concrete inputs\<close>

lemmas char_defs = in_range_def is_digit_def is_word_def is_line_end_def is_space_def
  any_char_def dot_def canon_def lower_char_def char_of_def bit_0

lemmas eval_defs = char_defs toLowerCase_def trim_empty_def digit_char_def show_nat.simps
  Plus_def Alts_def Seqs_def rx_here_def rx_test_def rx_segs.simps rx_match.simps(6) rx_match.simps(7)
  match_count_def rx_replace_def
  rx_split_def todo_rx_def comment_token_rx_def magic_rx_def deprecated_rx_def null_rx_def
  null_check_rx_def opener_rx_def brace_rx_def end_rx_def block_rx_def commentCount_of_def
  lineCount_of_def nest_step_def maxDepth_of_def functionBlocks_of_def push_when_def analyzeIssues_def
  Let_def single_digits_def

section \<open>Properties of the language detection\<close>

lemma canon_False [simp]: "canon False c = c"
  by (simp add: canon_def)

lemma lit_match_exact:
  "lit_match False w (pv, w @ post) = [(if w = [] then pv else Some (last w), post)]"
  by (induction w arbitrary: pv) simp_all

lemma word_rx_unfold: "word_rx w = Seq WordB (Seq (Lit w) WordB)"
  by (simp add: word_rx_def Seqs_def)

lemma word_rx_match:
  assumes "w \<noteq> []" "is_word (hd w)" "is_word (last w)"
    "\<not> word_before (pv, w @ post)" "\<not> word_after (Some (last w), post)"
  shows "rx_match False (word_rx w) (pv, w @ post) \<noteq> []"
proof -
  from assms(1,2) have wa: "word_after (pv, w @ post)" by (cases w) simp_all
  show ?thesis using assms wa by (simp add: word_rx_unfold lit_match_exact)
qed

lemma rx_test_Alt:
  "rx_test_from ci a prev s \<or> rx_test_from ci b prev s \<Longrightarrow> rx_test_from ci (Alt a b) prev s"
  by (induction s arbitrary: prev) auto

lemma word_occurs:
  assumes "w \<noteq> []" "is_word (hd w)" "is_word (last w)"
    "pre = [] \<or> \<not> is_word (last pre)" "post = [] \<or> \<not> is_word (hd post)"
  shows "rx_test False (word_rx w) (pre @ w @ post)"
proof -
  have a: "\<not> word_before (if pre = [] then None else Some (last pre), w @ post)"
    using assms(4) by auto
  have b: "\<not> word_after (Some (last w), post)"
    using assms(5) by (cases post) auto
  from word_rx_match [OF assms(1-3) a b] show ?thesis
    unfolding rx_test_def by (rule rx_test_from_append)
qed

text \<open>
  C6. The rules of the language detection are tried in a fixed order and the first one
  that matches decides. When the lower-cased text contains the word \<open>def\<close> or the word
  \<open>import\<close> (the characters, with no letter, digit or underscore directly before or
  after them), \<open>detectLanguage\<close> returns \<open>python\<close>, whatever the current language is and
  whether or not the text also contains a JavaScript marker.
\<close>

theorem python_marker_first:
  assumes "toLowerCase codeText = pre @ w @ post" "w = ''def'' \<or> w = ''import''"
    "pre = [] \<or> \<not> is_word (last pre)" "post = [] \<or> \<not> is_word (hd post)"
  shows "detectLanguage language codeText = python"
proof -
  from assms(2) have w: "w \<noteq> []" "is_word (hd w)" "is_word (last w)"
    by (auto simp: is_word_def in_range_def)
  from word_occurs [OF w assms(3,4)] have t: "rx_test False (word_rx w) (toLowerCase codeText)"
    by (simp add: assms(1))
  have "rx_test False python_rx (toLowerCase codeText)"
    using t assms(2) unfolding python_rx_def Alts_def rx_test_def
    by (auto intro: rx_test_Alt)
  moreover have "codeText \<noteq> []" using assms(1,2) by (auto simp: toLowerCase_def)
  ultimately show ?thesis by (simp add: detectLanguage_def Let_def)
qed

theorem python_marker_first_witness:
  "toLowerCase ''function f() {}; DEF g'' = ''function f() {}; '' @ ''def'' @ '' g''
   \<and> rx_test False javascript_rx (toLowerCase ''function f() {}; DEF g'')
   \<and> detectLanguage java ''function f() {}; DEF g'' = python"
proof -
  have h1: "toLowerCase ''function f() {}; DEF g'' = ''function f() {}; '' @ ''def'' @ '' g''"
    by (simp add: toLowerCase_def char_defs)
  have h2: "rx_test False javascript_rx (toLowerCase ''function f() {}; DEF g'')"
    unfolding h1 by (simp add: javascript_rx_def word_rx_def eval_defs)
  have "detectLanguage java ''function f() {}; DEF g'' = python"
    by (rule python_marker_first [OF h1]) (simp_all add: char_defs)
  with h1 h2 show ?thesis by (intro conjI)
qed

section \<open>Magic numbers\<close>

lemma magic_rx_unfold:
  "magic_rx = Seq (Cls (\<lambda>c. \<not> is_word c))
     (Seq (Alt (Seq (Cls (in_range CHR ''2'' CHR ''9'')) (Opt (Cls is_digit)))
               (Seq (Cls (in_range CHR ''1'' CHR ''9''))
                    (Seq (Cls is_digit) (Seq (Cls is_digit) (Star (Cls is_digit))))))
          (Cls (\<lambda>c. \<not> is_word c)))"
  by (simp add: magic_rx_def Seqs_def)

lemma digit_2_9: "in_range CHR ''2'' CHR ''9'' c \<Longrightarrow> is_digit c \<and> c \<noteq> CHR ''0'' \<and> c \<noteq> CHR ''1''"
  by (auto simp: in_range_def is_digit_def)

lemma digit_1_9: "in_range CHR ''1'' CHR ''9'' c \<Longrightarrow> is_digit c \<and> c \<noteq> CHR ''0''"
  by (auto simp: in_range_def is_digit_def)

lemma digit_is_word: "is_digit c \<Longrightarrow> is_word c"
  by (simp add: is_digit_def is_word_def)

lemma magic_no_match_here:
  assumes "small_literals s"
  shows "rx_match False magic_rx (pv, s) = []"
proof (cases s)
  case Nil
  then show ?thesis by (simp add: magic_rx_unfold)
next
  case s: (Cons a s1)
  show ?thesis
  proof (cases s1)
    case Nil
    with s show ?thesis by (simp add: magic_rx_unfold)
  next
    case s1: (Cons d s2)
    have A: "\<not> in_range CHR ''2'' CHR ''9'' d"
      using assms s s1 digit_2_9 [of d] by auto
    have B: "in_range CHR ''1'' CHR ''9'' d \<Longrightarrow> s2 = [] \<or> \<not> is_digit (hd s2)"
      using assms s s1 digit_1_9 [of d] by (cases s2) auto
    show ?thesis
    proof (cases s2)
      case Nil
      with s s1 A show ?thesis by (simp add: magic_rx_unfold)
    next
      case (Cons e s3)
      with s s1 A B show ?thesis by (simp add: magic_rx_unfold)
    qed
  qed
qed

lemma small_literals_tl: "small_literals (x # xs) \<Longrightarrow> small_literals xs"
  by simp

lemma magic_no_match: "small_literals s \<Longrightarrow> \<not> rx_test_from False magic_rx pv s"
proof (induction s arbitrary: pv)
  case Nil
  then show ?case using magic_no_match_here [of "[]" pv] by simp
next
  case (Cons x xs)
  from Cons.prems have "small_literals xs" by simp
  from Cons.IH [OF this] magic_no_match_here [OF Cons.prems] show ?case by simp
qed

lemma magic_issue_iff:
  "text \<noteq> [] \<Longrightarrow>
   ''Magic Numbers'' \<in> set (map type (analyzeIssues text)) \<longleftrightarrow> rx_test False magic_rx text"
  unfolding analyzeIssues_types match_count_pos_iff by simp

lemma magic_digit_here:
  assumes "\<not> is_word a" "\<not> is_word b" "in_range CHR ''2'' CHR ''9'' d"
  shows "rx_match False magic_rx (pv, a # d # b # post) \<noteq> []"
  using assms digit_is_word [of b] by (auto simp: magic_rx_unfold)

lemma magic_42_here:
  assumes "\<not> is_word a" "\<not> is_word b"
  shows "rx_match False magic_rx (pv, a # CHR ''4'' # CHR ''2'' # b # post) \<noteq> []"
  using assms by (simp add: magic_rx_unfold in_range_def is_digit_def)

text \<open>
  C1 (as amended). When every numeric literal of the text is the single digit 0 or the
  single digit 1, the scanner reports no Magic Numbers issue. A single digit from 2 to 9
  that stands between two characters that are neither letters, digits nor underscores
  does make the scanner report Magic Numbers (the second digit of \<open>[2-9][0-9]?\<close> is
  optional), and so does the literal 42 between two such characters.
\<close>

theorem magic_numbers_single_digits:
  "(small_literals text \<longrightarrow> ''Magic Numbers'' \<notin> set (map type (analyzeIssues text)))
   \<and> (\<not> is_word a \<and> \<not> is_word b \<and> in_range CHR ''2'' CHR ''9'' d \<longrightarrow>
        ''Magic Numbers'' \<in> set (map type (analyzeIssues (pre @ [a, d, b] @ post))))
   \<and> (\<not> is_word a \<and> \<not> is_word b \<longrightarrow>
        ''Magic Numbers'' \<in> set (map type (analyzeIssues (pre @ [a] @ ''42'' @ [b] @ post))))"
proof (intro conjI impI)
  assume "small_literals text"
  then have n: "\<not> rx_test False magic_rx text" by (simp add: rx_test_def magic_no_match)
  show "''Magic Numbers'' \<notin> set (map type (analyzeIssues text))"
  proof (cases "text = []")
    case True
    then show ?thesis by (simp add: analyzeIssues_def)
  next
    case False
    with n show ?thesis by (simp only: magic_issue_iff [OF False] not_False_eq_True)
  qed
next
  assume h: "\<not> is_word a \<and> \<not> is_word b \<and> in_range CHR ''2'' CHR ''9'' d"
  then have "rx_match False magic_rx (if pre = [] then None else Some (last pre), a # d # b # post) \<noteq> []"
    by (intro magic_digit_here) simp_all
  then have "rx_test_from False magic_rx None (pre @ a # d # b # post)"
    by (rule rx_test_from_append)
  moreover have "pre @ a # d # b # post \<noteq> []" by simp
  ultimately show "''Magic Numbers'' \<in> set (map type (analyzeIssues (pre @ [a, d, b] @ post)))"
    using magic_issue_iff [of "pre @ a # d # b # post"] by (simp add: rx_test_def)
next
  assume h: "\<not> is_word a \<and> \<not> is_word b"
  then have "rx_match False magic_rx (if pre = [] then None else Some (last pre),
      a # CHR ''4'' # CHR ''2'' # b # post) \<noteq> []"
    by (intro magic_42_here) simp_all
  then have "rx_test_from False magic_rx None (pre @ a # CHR ''4'' # CHR ''2'' # b # post)"
    by (rule rx_test_from_append)
  moreover have "pre @ a # CHR ''4'' # CHR ''2'' # b # post \<noteq> []" by simp
  ultimately show "''Magic Numbers'' \<in> set (map type (analyzeIssues (pre @ [a] @ ''42'' @ [b] @ post)))"
    using magic_issue_iff [of "pre @ a # CHR ''4'' # CHR ''2'' # b # post"] by (simp add: rx_test_def)
qed
theorem magic_numbers_single_digits_witness:
  "small_literals ''n = 1 + 0;'' \<and> ''Magic Numbers'' \<notin> set (map type (analyzeIssues ''n = 1 + 0;''))
   \<and> ''Magic Numbers'' \<in> set (map type (analyzeIssues ''n = 7;''))
   \<and> ''Magic Numbers'' \<in> set (map type (analyzeIssues ''n = 42;''))"
  using magic_numbers_single_digits [of "''n = 1 + 0;''" "CHR '' ''" "CHR '';''" "CHR ''7''" "''n =''" "[]"]
  by (simp add: char_defs)

text \<open>
  The claim as first stated fails: in the text \<open>" 5 "\<close> the only numeric literal is the
  single digit 5, bounded on both sides by spaces, and the scanner reports Magic Numbers.
\<close>

theorem magic_five_counterexample:
  "single_digits '' 5 '' \<and> ''Magic Numbers'' \<in> set (map type (analyzeIssues '' 5 ''))"
  by (simp add: eval_defs)

section \<open>Deep nesting\<close>

lemma nest_step_snd_mono: "snd st \<le> snd (nest_step l st)"
  by (simp add: nest_step_def Let_def)

lemma nest_fold_snd_mono: "snd st \<le> snd (fold nest_step ls st)"
proof (induction ls arbitrary: st)
  case Nil
  show ?case by simp
next
  case (Cons l ls)
  have "snd st \<le> snd (nest_step l st)" by (rule nest_step_snd_mono)
  also have "\<dots> \<le> snd (fold nest_step ls (nest_step l st))" by (rule Cons.IH)
  finally show ?case by simp
qed

lemma nest_step_fst_nonneg: "0 \<le> fst st \<Longrightarrow> 0 \<le> fst (nest_step l st)"
  by (simp add: nest_step_def Let_def)

lemma nest_fold_fst_nonneg: "0 \<le> fst st \<Longrightarrow> 0 \<le> fst (fold nest_step ls st)"
  by (induction ls arbitrary: st) (simp_all add: nest_step_fst_nonneg)

lemma nest_step_open:
  assumes "rx_test False opener_rx l" "\<not> rx_test False brace_rx l" "\<not> rx_test False end_rx l"
  shows "fst (nest_step l st) = fst st + 1" "fst st + 1 \<le> snd (nest_step l st)"
  using assms by (simp_all add: nest_step_def Let_def)

lemma four_openers:
  assumes "\<forall>l \<in> set [l1, l2, l3, l4].
      rx_test False opener_rx l \<and> \<not> rx_test False brace_rx l \<and> \<not> rx_test False end_rx l"
    and "0 \<le> fst st"
  shows "4 \<le> snd (fold nest_step [l1, l2, l3, l4] st)"
proof -
  have o: "rx_test False opener_rx l1" "\<not> rx_test False brace_rx l1" "\<not> rx_test False end_rx l1"
    "rx_test False opener_rx l2" "\<not> rx_test False brace_rx l2" "\<not> rx_test False end_rx l2"
    "rx_test False opener_rx l3" "\<not> rx_test False brace_rx l3" "\<not> rx_test False end_rx l3"
    "rx_test False opener_rx l4" "\<not> rx_test False brace_rx l4" "\<not> rx_test False end_rx l4"
    using assms(1) by simp_all
  define s1 where "s1 = nest_step l1 st"
  define s2 where "s2 = nest_step l2 s1"
  define s3 where "s3 = nest_step l3 s2"
  define s4 where "s4 = nest_step l4 s3"
  have "fst s1 = fst st + 1" unfolding s1_def by (rule nest_step_open(1) [OF o(1-3)])
  moreover have "fst s2 = fst s1 + 1" unfolding s2_def by (rule nest_step_open(1) [OF o(4-6)])
  moreover have "fst s3 = fst s2 + 1" unfolding s3_def by (rule nest_step_open(1) [OF o(7-9)])
  moreover have "fst s3 + 1 \<le> snd s4" unfolding s4_def by (rule nest_step_open(2) [OF o(10-12)])
  ultimately have "4 \<le> snd s4" using assms(2) by simp
  then show ?thesis by (simp add: s1_def s2_def s3_def s4_def)
qed

lemma deep_issue_iff:
  "text \<noteq> [] \<Longrightarrow>
   ''Deep nesting'' \<in> set (map type (analyzeIssues text)) \<longleftrightarrow> 4 \<le> maxDepth_of text"
  unfolding analyzeIssues_types by simp

text \<open>
  C7. The nesting check folds over the lines in order, from depth 0 and maximal depth 0.
  On each line the depth is first increased by 1 when the line contains the word for,
  while, if or switch, then decreased by 1 but not below 0 when the line contains a
  closing brace or the word end, and the maximal depth is then raised to the depth. The
  issue Deep nesting is reported exactly when the maximal depth is at least 4. Four
  consecutive lines that each contain one of the four words and neither a closing brace
  nor the word end give a maximal depth of at least 4 and make the scanner report it.
\<close>

theorem deep_nesting_check:
  "maxDepth_of text = snd (fold nest_step (split_on CHR 0x0A text) (0, 0))
   \<and> nest_step l (d, m) =
       (let d1 = (if rx_test False opener_rx l then d + 1 else d);
            d2 = (if rx_test False brace_rx l \<or> rx_test False end_rx l then max 0 (d1 - 1) else d1)
        in (d2, max m d2))
   \<and> (text \<noteq> [] \<longrightarrow>
        (''Deep nesting'' \<in> set (map type (analyzeIssues text)) \<longleftrightarrow> 4 \<le> maxDepth_of text))
   \<and> (split_on CHR 0x0A text = before @ [l1, l2, l3, l4] @ after
        \<and> (\<forall>l \<in> set [l1, l2, l3, l4]. rx_test False opener_rx l
              \<and> \<not> rx_test False brace_rx l \<and> \<not> rx_test False end_rx l)
        \<longrightarrow> 4 \<le> maxDepth_of text \<and> ''Deep nesting'' \<in> set (map type (analyzeIssues text)))"
proof (intro conjI impI)
  show "maxDepth_of text = snd (fold nest_step (split_on CHR 0x0A text) (0, 0))"
    by (simp add: maxDepth_of_def)
  show "nest_step l (d, m) =
       (let d1 = (if rx_test False opener_rx l then d + 1 else d);
            d2 = (if rx_test False brace_rx l \<or> rx_test False end_rx l then max 0 (d1 - 1) else d1)
        in (d2, max m d2))"
    by (simp add: nest_step_def Let_def max_def)
  show "''Deep nesting'' \<in> set (map type (analyzeIssues text)) \<longleftrightarrow> 4 \<le> maxDepth_of text"
    if "text \<noteq> []" using that by (rule deep_issue_iff)
  assume h: "split_on CHR 0x0A text = before @ [l1, l2, l3, l4] @ after
        \<and> (\<forall>l \<in> set [l1, l2, l3, l4]. rx_test False opener_rx l
              \<and> \<not> rx_test False brace_rx l \<and> \<not> rx_test False end_rx l)"
  define st where "st = fold nest_step before (0, 0)"
  have "0 \<le> fst st" unfolding st_def by (rule nest_fold_fst_nonneg) simp
  with h have "4 \<le> snd (fold nest_step [l1, l2, l3, l4] st)" by (intro four_openers) simp_all
  also have "\<dots> \<le> snd (fold nest_step after (fold nest_step [l1, l2, l3, l4] st))"
    by (rule nest_fold_snd_mono)
  finally show d: "4 \<le> maxDepth_of text" using h by (simp add: maxDepth_of_def st_def)
  have ne: "text \<noteq> []" using h by auto
  show "''Deep nesting'' \<in> set (map type (analyzeIssues text))"
    using deep_issue_iff [OF ne] d by blast
qed

theorem deep_nesting_check_witness:
  "split_on CHR 0x0A four_ifs = [] @ [''if a'', ''for b'', ''while c'', ''switch d''] @ []
   \<and> 4 \<le> maxDepth_of four_ifs
   \<and> ''Deep nesting'' \<in> set (map type (analyzeIssues four_ifs))"
proof -
  have h1: "split_on CHR 0x0A four_ifs = [] @ [''if a'', ''for b'', ''while c'', ''switch d''] @ []"
    by (simp add: four_ifs_def)
  have h2: "\<forall>l \<in> set [''if a'', ''for b'', ''while c'', ''switch d'']. rx_test False opener_rx l
              \<and> \<not> rx_test False brace_rx l \<and> \<not> rx_test False end_rx l"
    by (simp add: char_defs Alts_def Seqs_def rx_test_def opener_rx_def brace_rx_def end_rx_def)
  note t = deep_nesting_check [of four_ifs "[]" 0 0 "[]" "''if a''" "''for b''" "''while c''" "''switch d''" "[]"]
  have "4 \<le> maxDepth_of four_ifs \<and> ''Deep nesting'' \<in> set (map type (analyzeIssues four_ifs))"
    by (rule t [THEN conjunct2, THEN conjunct2, THEN conjunct2, THEN mp, OF conjI [OF h1 h2]])
  with h1 show ?thesis by (rule conjI)
qed

section \<open>Safety of the highlighter\<close>

lemma sc_run_Nil [simp]: "sc_run q [] = q"
  by (simp add: sc_run_def)

lemma sc_run_Cons [simp]: "sc_run q (x # xs) = sc_run (sc_step q x) xs"
  by (simp add: sc_run_def)

lemma sc_run_append: "sc_run q (a @ b) = sc_run (sc_run q a) b"
  by (simp add: sc_run_def)

declare sc_step.simps [simp del]

lemma sc_step_dead [simp]: "sc_step 3 c = 3"
  by (simp add: sc_step.simps)

lemma sc_run_dead [simp]: "sc_run 3 s = 3"
  by (induction s) simp_all

lemma sc_run_live: "sc_run q s \<noteq> 3 \<Longrightarrow> q \<noteq> 3"
  by auto

lemma sc_step_track:
  assumes "qn = 0 \<or> qn = qo" "sc_step qo x \<noteq> 3"
  shows "sc_step qn x = 0 \<or> sc_step qn x = sc_step qo x"
  using assms by (auto simp: sc_step.simps)

lemma sc_run_track:
  assumes "qn = 0 \<or> qn = qo" "sc_run qo t \<noteq> 3"
  shows "sc_run qn t = 0 \<or> sc_run qn t = sc_run qo t"
  using assms
proof (induction t arbitrary: qn qo)
  case Nil
  then show ?case by simp
next
  case (Cons x xs)
  from Cons.prems(2) have live: "sc_step qo x \<noteq> 3" by (auto dest: sc_run_live)
  from sc_step_track [OF Cons.prems(1) live]
  have "sc_step qn x = 0 \<or> sc_step qn x = sc_step qo x" .
  from Cons.IH [OF this] Cons.prems(2) show ?case by simp
qed

lemma sc_run_no_lt: "CHR ''<'' \<notin> set b \<Longrightarrow> sc_run 0 b = 0"
  by (induction b) (auto simp: sc_step.simps)

lemma sc_run_span_open:
  assumes "q \<noteq> 3" "CHR ''<'' \<notin> set cls"
  shows "sc_run q (span_open cls) = 0"
proof -
  have 1: \<open>sc_run q ''<span class="'' = 0\<close> using assms(1) by (simp add: sc_step.simps)
  have 2: \<open>sc_run 0 ''">'' = 0\<close> by (simp add: sc_step.simps)
  have \<open>sc_run q (span_open cls) = sc_run (sc_run (sc_run q ''<span class="'') cls) ''">''\<close>
    by (simp only: span_open_def sc_run_append)
  also have "\<dots> = 0" by (simp only: 1 2 sc_run_no_lt [OF assms(2)])
  finally show ?thesis .
qed

lemma sc_run_span_close: "q \<noteq> 3 \<Longrightarrow> sc_run q span_close = 0"
  by (simp add: span_close_def sc_step.simps)

lemma sc_run_wrap:
  assumes "q \<noteq> 3" "CHR ''<'' \<notin> set cls" "sc_run 0 body \<noteq> 3"
  shows "sc_run q (span_open cls @ body @ span_close) = 0"
  using assms by (simp add: sc_run_append sc_run_span_open sc_run_span_close)

lemma subst_track:
  assumes F: "\<And>m q q'. q \<noteq> 3 \<Longrightarrow> sc_run q m \<noteq> 3 \<Longrightarrow> q' \<noteq> 3 \<Longrightarrow> sc_run q' (f m) = 0"
    and "qn = 0 \<or> qn = qo" and "sc_run qo (concat (map seg_text segs)) \<noteq> 3"
  shows "sc_run qn (concat (map (seg_subst f) segs)) = 0
       \<or> sc_run qn (concat (map (seg_subst f) segs)) = sc_run qo (concat (map seg_text segs))"
  using assms(2,3)
proof (induction segs arbitrary: qn qo)
  case Nil
  then show ?case by simp
next
  case (Cons sg segs)
  show ?case
  proof (cases sg)
    case (Plain t)
    from Cons.prems(2) Plain have live: "sc_run (sc_run qo t) (concat (map seg_text segs)) \<noteq> 3"
      by (simp add: sc_run_append)
    then have "sc_run qo t \<noteq> 3" by (rule sc_run_live)
    from sc_run_track [OF Cons.prems(1) this]
    have "sc_run qn t = 0 \<or> sc_run qn t = sc_run qo t" .
    from Cons.IH [OF this live] Plain show ?thesis by (simp add: sc_run_append)
  next
    case (Hit m)
    from Cons.prems(2) Hit have live: "sc_run (sc_run qo m) (concat (map seg_text segs)) \<noteq> 3"
      by (simp add: sc_run_append)
    then have m: "sc_run qo m \<noteq> 3" by (rule sc_run_live)
    then have qo: "qo \<noteq> 3" by (rule sc_run_live)
    with Cons.prems(1) have "qn \<noteq> 3" by auto
    from F [OF qo m this] have "sc_run qn (f m) = 0" .
    with Cons.IH [of 0 "sc_run qo m", OF _ live] Hit show ?thesis
      by (simp add: sc_run_append)
  qed
qed

lemma replace_safe:
  assumes F: "\<And>m q q'. q \<noteq> 3 \<Longrightarrow> sc_run q m \<noteq> 3 \<Longrightarrow> q' \<noteq> 3 \<Longrightarrow> sc_run q' (f m) = 0"
    and "sc_run 0 s \<noteq> 3"
  shows "sc_run 0 (rx_replace ci r f s) \<noteq> 3"
proof -
  have old: "sc_run 0 (concat (map seg_text (rx_segs ci r None s))) \<noteq> 3"
    using assms(2) by (simp add: rx_segs_text)
  from subst_track [of f 0 0 "rx_segs ci r None s", OF F _ old] old
  show ?thesis by (auto simp: rx_replace_def)
qed

lemma replace_char_set:
  "set (replace_char c r s) \<subseteq> (set s - {c}) \<union> set r"
  by (induction s) (auto simp: replace_char_def)

lemma esc_no_lt: "CHR ''<'' \<notin> set (esc s)"
proof -
  have "CHR ''<'' \<notin> set (replace_char CHR ''<'' ''&lt;'' (replace_char CHR ''&'' ''&amp;'' s))"
    using replace_char_set [of "CHR ''<''" "''&lt;''"] by fastforce
  then show ?thesis
    using replace_char_set [of "CHR ''>''" "''&gt;''"] unfolding esc_def by fastforce
qed

lemma esc_no_gt: "CHR ''>'' \<notin> set (esc s)"
  using replace_char_set [of "CHR ''>''" "''&gt;''"] unfolding esc_def by fastforce


lemma F_esc:
  assumes "CHR ''<'' \<notin> set cls" "q' \<noteq> 3"
  shows "sc_run q' (span_open cls @ esc m @ span_close) = 0"
  using assms by (intro sc_run_wrap) (simp_all add: sc_run_no_lt esc_no_lt)

lemma F_id:
  assumes "CHR ''<'' \<notin> set cls" "q \<noteq> 3" "sc_run q m \<noteq> 3" "q' \<noteq> 3"
  shows "sc_run q' (span_open cls @ m @ span_close) = 0"
proof -
  from sc_run_track [of 0 q m] assms(3) have "sc_run 0 m \<noteq> 3" by auto
  with assms show ?thesis by (intro sc_run_wrap)
qed

lemma F_const:
  assumes "CHR ''<'' \<notin> set cls" "sc_run 0 k \<noteq> 3" "q' \<noteq> 3"
  shows "sc_run q' (span_open cls @ k @ span_close) = 0"
  using assms by (intro sc_run_wrap)

lemma hl_keyword_safe:
  assumes "sc_run 0 k \<noteq> 3" "sc_run 0 html \<noteq> 3"
  shows "sc_run 0 (hl_keyword k html) \<noteq> 3"
  unfolding hl_keyword_def
  by (rule replace_safe [OF F_const [OF _ assms(1)] assms(2)]) simp_all

lemma fold_hl_keyword_safe:
  assumes "\<forall>k \<in> set ks. sc_run 0 k \<noteq> 3" "sc_run 0 html \<noteq> 3"
  shows "sc_run 0 (fold hl_keyword ks html) \<noteq> 3"
  using assms by (induction ks arbitrary: html) (simp_all add: hl_keyword_safe)

lemma set_set_order: "set (set_order xs) \<subseteq> set xs"
proof (induction xs rule: set_order.induct)
  case 1
  show ?case by simp
next
  case (2 x xs)
  then show ?case by auto
qed

lemma keywords_safe: "\<forall>k \<in> set (keywords_common @ keywords_of lang). sc_run 0 k \<noteq> 3"
  by (cases lang) (simp_all add: keywords_common_def sc_step.simps)

lemma highlight_live: "sc_run 0 (highlightCode text lang) \<noteq> 3"
proof (cases "text = []")
  case True
  then show ?thesis by (simp add: highlightCode_def placeholder_def sc_step.simps)
next
  case False
  define h0 where "h0 = esc text"
  define h1 where "h1 = rx_replace False hl_comment_rx
                     (\<lambda>m. span_open ''text-slate-400'' @ esc m @ span_close) h0"
  define h2 where "h2 = rx_replace False hl_string_rx
                     (\<lambda>m. span_open ''text-green-300'' @ esc m @ span_close) h1"
  define h3 where "h3 = rx_replace False hl_number_rx
                     (\<lambda>m. span_open ''text-yellow-300'' @ m @ span_close) h2"
  define h4 where "h4 = fold hl_keyword (set_order (keywords_common @ keywords_of lang)) h3"
  have 0: "sc_run 0 h0 \<noteq> 3" by (simp add: h0_def sc_run_no_lt esc_no_lt)
  have 1: "sc_run 0 h1 \<noteq> 3" unfolding h1_def
    by (rule replace_safe [OF F_esc 0]) simp_all
  have 2: "sc_run 0 h2 \<noteq> 3" unfolding h2_def
    by (rule replace_safe [OF F_esc 1]) simp_all
  have 3: "sc_run 0 h3 \<noteq> 3" unfolding h3_def
    by (rule replace_safe [OF F_id 2]) simp_all
  have 4: "sc_run 0 h4 \<noteq> 3" unfolding h4_def
    using keywords_safe set_set_order by (intro fold_hl_keyword_safe 3) blast
  have o: "sc_run 0 pre_open = 0" by (simp add: pre_open_def sc_step.simps)
  have c: "\<And>q. q \<noteq> 3 \<Longrightarrow> sc_run q pre_close \<noteq> 3" by (simp add: pre_close_def sc_step.simps)
  have "highlightCode text lang = pre_open @ h4 @ pre_close"
    using False by (simp add: highlightCode_def Let_def h0_def h1_def h2_def h3_def h4_def)
  then show ?thesis using 4 by (simp add: sc_run_append o c)
qed

lemma sc_found: "sc_run q (''<sc'' @ b) = 3"
  by (cases "q = 3") (simp_all add: sc_step.simps)

lemma sublist_sc_dead: "sublist ''<sc'' s \<Longrightarrow> sc_run q s = 3"
proof -
  assume "sublist ''<sc'' s"
  then obtain a b where s: "s = a @ ''<sc'' @ b" by (auto simp: sublist_def)
  have "sc_run q s = sc_run (sc_run q a) (''<sc'' @ b)" by (simp only: s sc_run_append)
  also have "\<dots> = 3" by (rule sc_found)
  finally show ?thesis .
qed

lemma sublist_script_sc: "sublist ''<script>'' s \<Longrightarrow> sublist ''<sc'' s"
proof -
  assume "sublist ''<script>'' s"
  then obtain a b where "s = a @ ''<script>'' @ b" by (auto simp: sublist_def)
  then have "s = a @ ''<sc'' @ (''ript>'' @ b)" by simp
  then show ?thesis unfolding sublist_def by blast
qed

text \<open>
  Whatever the input text and the language, the string that \<open>highlightCode\<close> returns does
  not contain \<open><script>\<close> (it does not even contain \<open><sc\<close>): a \<open><script>\<close> of the input
  never reaches the output as a tag. The first escaping step leaves no \<open><\<close> and no \<open>>\<close> of
  the input in the text, and every \<open><\<close> of the output belongs to markup that the later
  steps insert.
\<close>

lemma no_script_tag:
  "\<not> sublist ''<script>'' (highlightCode text lang)
   \<and> \<not> sublist ''<sc'' (highlightCode text lang)
   \<and> CHR ''<'' \<notin> set (esc text) \<and> CHR ''>'' \<notin> set (esc text)"
  using highlight_live [of "text" lang] sublist_sc_dead [of "highlightCode text lang" 0]
    sublist_script_sc [of "highlightCode text lang"]
  by (auto simp: esc_no_lt esc_no_gt)

section \<open>The text of the highlighted markup\<close>

lemma lit_match_prefix: "lit_match False k (pv, s) \<noteq> [] \<Longrightarrow> prefix k s"
proof (induction k arbitrary: pv s)
  case Nil
  then show ?case by simp
next
  case (Cons c cs)
  then show ?case by (cases s) (auto split: if_splits)
qed

lemma word_rx_match_prefix:
  assumes "rx_match False (word_rx k) (pv, s) \<noteq> []"
  shows "prefix k s"
proof -
  from assms have "lit_match False k (pv, s) \<noteq> []"
    by (auto simp: word_rx_unfold split: if_splits)
  then show ?thesis by (rule lit_match_prefix)
qed

lemma word_rx_test_sublist: "rx_test_from False (word_rx k) pv s \<Longrightarrow> sublist k s"
proof (induction s arbitrary: pv)
  case Nil
  then have "prefix k []" by (auto dest: word_rx_match_prefix)
  then show ?case by auto
next
  case (Cons x xs)
  from Cons.prems have "rx_match False (word_rx k) (pv, x # xs) \<noteq> []
      \<or> rx_test_from False (word_rx k) (Some x) xs" by simp
  then show ?case
  proof
    assume "rx_match False (word_rx k) (pv, x # xs) \<noteq> []"
    then have "prefix k (x # xs)" by (rule word_rx_match_prefix)
    then show ?thesis by (rule prefix_imp_sublist)
  next
    assume "rx_test_from False (word_rx k) (Some x) xs"
    then have "sublist k xs" by (rule Cons.IH)
    then show ?thesis by (simp add: sublist_Cons_right)
  qed
qed

lemma hl_keyword_absent: "\<not> sublist k s \<Longrightarrow> hl_keyword k s = s"
  unfolding hl_keyword_def
  by (rule rx_replace_no_match) (auto simp: rx_test_def dest: word_rx_test_sublist)


lemma strip_plain:
  "CHR ''<'' \<notin> set e \<Longrightarrow> strip_tags_from False (e @ r) = e @ strip_tags_from False r"
  by (induction e) auto

lemma strip_wrapper:
  assumes "CHR ''<'' \<notin> set e"
  shows "strip_tags (pre_open @ e @ pre_close) = e"
proof -
  have "strip_tags (pre_open @ e @ pre_close) = strip_tags_from False (e @ pre_close)"
    by (simp add: strip_tags_def pre_open_def)
  also have "\<dots> = e @ strip_tags_from False pre_close"
    using assms by (rule strip_plain)
  also have "\<dots> = e" by (simp add: pre_close_def)
  finally show ?thesis .
qed


lemma java_keywords:
  "set_order (keywords_common @ keywords_of java) =
     [''return'', ''const'', ''let'', ''var'', ''if'', ''else'', ''for'', ''while'',
      ''switch'', ''case'', ''break'', ''continue''] @ [''class''] @
     [''new'', ''throw'', ''try'', ''catch'', ''finally'', ''import'', ''from'', ''export'',
      ''public'', ''private'', ''protected'', ''void'', ''throws'', ''implements'', ''extends'']"
  by (simp add: keywords_common_def)

lemma fold_absent: "\<forall>k \<in> set ks. \<not> sublist k s \<Longrightarrow> fold hl_keyword ks s = s"
  by (induction ks) (simp_all add: hl_keyword_absent)

lemma highlight_steps:
  assumes "text \<noteq> []"
    and "rx_replace False hl_comment_rx
           (\<lambda>m. span_open ''text-slate-400'' @ esc m @ span_close) (esc text) = h1"
    and "rx_replace False hl_string_rx
           (\<lambda>m. span_open ''text-green-300'' @ esc m @ span_close) h1 = h2"
    and "rx_replace False hl_number_rx
           (\<lambda>m. span_open ''text-yellow-300'' @ m @ span_close) h2 = h3"
    and "fold hl_keyword (set_order (keywords_common @ keywords_of lang)) h3 = h4"
  shows "highlightCode text lang = pre_open @ h4 @ pre_close"
  using assms(1)
  by (simp add: highlightCode_def Let_def assms(2,3,4,5) del: keywords_of.simps)

lemma java_fold:
  assumes "\<forall>k \<in> set [''return'', ''const'', ''let'', ''var'', ''if'', ''else'', ''for'', ''while'',
      ''switch'', ''case'', ''break'', ''continue'']. \<not> sublist k h"
    and "hl_keyword ''class'' h = h'"
    and "\<forall>k \<in> set [''new'', ''throw'', ''try'', ''catch'', ''finally'', ''import'', ''from'', ''export'',
      ''public'', ''private'', ''protected'', ''void'', ''throws'', ''implements'', ''extends'']. \<not> sublist k h'"
  shows "fold hl_keyword (set_order (keywords_common @ keywords_of java)) h = h'"
proof -
  have a: "fold hl_keyword [''return'', ''const'', ''let'', ''var'', ''if'', ''else'', ''for'', ''while'',
      ''switch'', ''case'', ''break'', ''continue''] h = h"
    by (rule fold_absent [OF assms(1)])
  have c: "fold hl_keyword [''class''] h = h'"
    by (simp add: assms(2))
  have b: "fold hl_keyword [''new'', ''throw'', ''try'', ''catch'', ''finally'', ''import'', ''from'', ''export'',
      ''public'', ''private'', ''protected'', ''void'', ''throws'', ''implements'', ''extends''] h' = h'"
    by (rule fold_absent [OF assms(3)])
  show ?thesis
    unfolding java_keywords by (simp only: fold_append o_apply a c b)
qed

subsection \<open>Keyword passes over intact markup\<close>










lemma kw_open_Cons: \<open>kw_open = CHR ''<'' # ''span class="text-purple-300 font-semibold">''\<close>
  by (simp add: kw_open_def span_open_def)

lemma span_close_Cons: "span_close = CHR ''<'' # ''/span>''"
  by (simp add: span_close_def)

lemma strip_kw_open [simp]: "strip_tags_from False (kw_open @ s) = strip_tags_from False s"
  by (simp add: kw_open_Cons)

lemma strip_span_close [simp]: "strip_tags_from False (span_close @ s) = strip_tags_from False s"
  by (simp add: span_close_Cons)
























lemma keywords_before_class:
  "takeWhile (\<lambda>k. k \<noteq> ''class'') keywords_common =
     [''return'', ''const'', ''let'', ''var'', ''if'', ''else'', ''for'', ''while'',
      ''switch'', ''case'', ''break'', ''continue'']"
  by (simp add: keywords_common_def)





subsection \<open>The inputs on which the text is the escaped input\<close>



subsection \<open>The inputs on which it is not\<close>

text \<open>
  Each of the four conditions is needed. A number, a keyword that comes before \<open>class\<close>
  and a comment each receive a span whose opening tag holds the word \<open>class\<close>, which the
  pass of the keyword \<open>class\<close> then matches inside the tag; the tag of a comment also
  holds a quoted string, and the tag of a string a number.
\<close>

lemma seven_highlight: "highlightCode ''7'' java = pre_open @ seven2 @ pre_close"
proof (rule highlight_steps)
  show "''7'' \<noteq> []" by simp
  have e: "esc ''7'' = ''7''" by (simp add: esc_def replace_char_def)
  show "rx_replace False hl_comment_rx
      (\<lambda>m. span_open ''text-slate-400'' @ esc m @ span_close) (esc ''7'') = ''7''"
    unfolding e by (rule rx_replace_no_match) (simp add: hl_comment_rx_def eval_defs)
  show "rx_replace False hl_string_rx
      (\<lambda>m. span_open ''text-green-300'' @ esc m @ span_close) ''7'' = ''7''"
    by (rule rx_replace_no_match) (simp add: hl_string_rx_def eval_defs)
  show "rx_replace False hl_number_rx
      (\<lambda>m. span_open ''text-yellow-300'' @ m @ span_close) ''7'' = seven1"
    by (simp add: hl_number_rx_def eval_defs span_open_def span_close_def seven1_def)
  show "fold hl_keyword (set_order (keywords_common @ keywords_of java)) seven1 = seven2"
  proof (rule java_fold)
    show "\<forall>k \<in> set [''return'', ''const'', ''let'', ''var'', ''if'', ''else'', ''for'', ''while'',
      ''switch'', ''case'', ''break'', ''continue'']. \<not> sublist k seven1"
      by (simp add: seven1_def sublist_code)
    show "hl_keyword ''class'' seven1 = seven2"
      by (simp add: hl_keyword_def word_rx_def eval_defs span_open_def span_close_def
          seven1_def seven2_def)
    show "\<forall>k \<in> set [''new'', ''throw'', ''try'', ''catch'', ''finally'', ''import'', ''from'', ''export'',
      ''public'', ''private'', ''protected'', ''void'', ''throws'', ''implements'', ''extends'']. \<not> sublist k seven2"
      by (simp add: seven2_def sublist_code)
  qed
qed

lemma if_highlight: "highlightCode ''if'' java = pre_open @ if2 @ pre_close"
proof (rule highlight_steps)
  show "''if'' \<noteq> []" by simp
  have e: "esc ''if'' = ''if''" by (simp add: esc_def replace_char_def)
  show "rx_replace False hl_comment_rx
      (\<lambda>m. span_open ''text-slate-400'' @ esc m @ span_close) (esc ''if'') = ''if''"
    unfolding e by (rule rx_replace_no_match) (simp add: hl_comment_rx_def eval_defs)
  show "rx_replace False hl_string_rx
      (\<lambda>m. span_open ''text-green-300'' @ esc m @ span_close) ''if'' = ''if''"
    by (rule rx_replace_no_match) (simp add: hl_string_rx_def eval_defs)
  show "rx_replace False hl_number_rx
      (\<lambda>m. span_open ''text-yellow-300'' @ m @ span_close) ''if'' = ''if''"
    by (rule rx_replace_no_match) (simp add: hl_number_rx_def eval_defs)
  have a: "fold hl_keyword [''return'', ''const'', ''let'', ''var''] ''if'' = ''if''"
    by (rule fold_absent) (simp add: sublist_code)
  have i: "fold hl_keyword [''if''] ''if'' = if1"
    by (simp add: hl_keyword_def word_rx_def eval_defs span_open_def span_close_def if1_def)
  have b: "fold hl_keyword [''else'', ''for'', ''while'', ''switch'', ''case'', ''break'', ''continue''] if1 = if1"
    by (rule fold_absent) (simp add: if1_def sublist_code)
  have c: "fold hl_keyword [''class''] if1 = if2"
    by (simp add: hl_keyword_def word_rx_def eval_defs span_open_def span_close_def if1_def if2_def)
  have d: "fold hl_keyword [''new'', ''throw'', ''try'', ''catch'', ''finally'', ''import'', ''from'', ''export'',
      ''public'', ''private'', ''protected'', ''void'', ''throws'', ''implements'', ''extends''] if2 = if2"
    by (rule fold_absent) (simp add: if2_def sublist_code)
  have k: "set_order (keywords_common @ keywords_of java) =
     [''return'', ''const'', ''let'', ''var''] @ [''if'']
     @ [''else'', ''for'', ''while'', ''switch'', ''case'', ''break'', ''continue''] @ [''class''] @
     [''new'', ''throw'', ''try'', ''catch'', ''finally'', ''import'', ''from'', ''export'',
      ''public'', ''private'', ''protected'', ''void'', ''throws'', ''implements'', ''extends'']"
    by (simp add: keywords_common_def)
  show "fold hl_keyword (set_order (keywords_common @ keywords_of java)) ''if'' = if2"
    unfolding k by (simp only: fold_append o_apply a i b c d)
qed

lemma hash_highlight: "highlightCode ''#'' java = pre_open @ hash4 @ pre_close"
proof (rule highlight_steps)
  show "''#'' \<noteq> []" by simp
  have e: "esc ''#'' = ''#''" by (simp add: esc_def replace_char_def)
  show "rx_replace False hl_comment_rx
      (\<lambda>m. span_open ''text-slate-400'' @ esc m @ span_close) (esc ''#'') = hash1"
    unfolding e
    by (simp add: hl_comment_rx_def eval_defs span_open_def span_close_def esc_def
        replace_char_def hash1_def)
  show "rx_replace False hl_string_rx
      (\<lambda>m. span_open ''text-green-300'' @ esc m @ span_close) hash1 = hash2"
    by (simp add: hl_string_rx_def eval_defs span_open_def span_close_def esc_def
        replace_char_def hash1_def hash2_def)
  show "rx_replace False hl_number_rx
      (\<lambda>m. span_open ''text-yellow-300'' @ m @ span_close) hash2 = hash3"
    by (simp add: hl_number_rx_def eval_defs span_open_def span_close_def hash2_def hash3_def)
  show "fold hl_keyword (set_order (keywords_common @ keywords_of java)) hash3 = hash4"
  proof (rule java_fold)
    show "\<forall>k \<in> set [''return'', ''const'', ''let'', ''var'', ''if'', ''else'', ''for'', ''while'',
      ''switch'', ''case'', ''break'', ''continue'']. \<not> sublist k hash3"
      by (simp add: hash3_def sublist_code)
    show "hl_keyword ''class'' hash3 = hash4"
      by (simp add: hl_keyword_def word_rx_def eval_defs span_open_def span_close_def
          hash3_def hash4_def)
    show "\<forall>k \<in> set [''new'', ''throw'', ''try'', ''catch'', ''finally'', ''import'', ''from'', ''export'',
      ''public'', ''private'', ''protected'', ''void'', ''throws'', ''implements'', ''extends'']. \<not> sublist k hash4"
      by (simp add: hash4_def sublist_code)
  qed
qed

lemma markup_text_limits:
  "strip_tags (highlightCode ''7'' java) \<noteq> esc ''7''
   \<and> strip_tags (highlightCode ''if'' java) \<noteq> esc ''if''
   \<and> strip_tags (highlightCode ''#'' java) \<noteq> esc ''#''"
  unfolding seven_highlight if_highlight hash_highlight
  by (simp add: strip_tags_def pre_open_def pre_close_def seven2_def if2_def hash4_def
      esc_def replace_char_def)
















section \<open>Escaping inside strings and comments\<close>

text \<open>
  The replacement for a comment and for a quoted string applies the escaping to the
  match, which was taken from text that is escaped already. For the string literal
  \<open>"<script>"\<close> the steps give the following markup.
\<close>

lemma sq_highlight: "highlightCode sq java = pre_open @ sq3 @ pre_close"
proof (rule highlight_steps)
  show "sq \<noteq> []" by (simp add: sq_def)
  have e: \<open>esc sq = ''"&lt;script&gt;"''\<close> by (simp add: sq_def esc_def replace_char_def)
  show \<open>rx_replace False hl_comment_rx
      (\<lambda>m. span_open ''text-slate-400'' @ esc m @ span_close) (esc sq) = ''"&lt;script&gt;"''\<close>
    unfolding e by (rule rx_replace_no_match) (simp add: hl_comment_rx_def eval_defs)
  show \<open>rx_replace False hl_string_rx
      (\<lambda>m. span_open ''text-green-300'' @ esc m @ span_close) ''"&lt;script&gt;"'' = sq1\<close>
    by (simp add: hl_string_rx_def eval_defs span_open_def span_close_def esc_def
        replace_char_def sq1_def)
  show "rx_replace False hl_number_rx
      (\<lambda>m. span_open ''text-yellow-300'' @ m @ span_close) sq1 = sq2"
    by (simp add: hl_number_rx_def eval_defs span_open_def span_close_def sq1_def sq2_def)
  show "fold hl_keyword (set_order (keywords_common @ keywords_of java)) sq2 = sq3"
  proof (rule java_fold)
    show "\<forall>k \<in> set [''return'', ''const'', ''let'', ''var'', ''if'', ''else'', ''for'', ''while'',
      ''switch'', ''case'', ''break'', ''continue'']. \<not> sublist k sq2"
      by (simp add: sq2_def sublist_code)
    show "hl_keyword ''class'' sq2 = sq3"
      by (simp add: hl_keyword_def word_rx_def eval_defs span_open_def span_close_def
          sq2_def sq3_def)
    show "\<forall>k \<in> set [''new'', ''throw'', ''try'', ''catch'', ''finally'', ''import'', ''from'', ''export'',
      ''public'', ''private'', ''protected'', ''void'', ''throws'', ''implements'', ''extends'']. \<not> sublist k sq3"
      by (simp add: sq3_def sublist_code)
  qed
qed

text \<open>
  C3. The input \<open>"<script>"\<close> contains \<open><script>\<close>. In the string that \<open>highlightCode\<close>
  returns for it, the \<open><\<close> and the \<open>>\<close> of the input do not appear as the entities \<open>&lt;\<close>
  and \<open>&gt;\<close>: the result holds \<open>&amp;lt;script&amp;gt;\<close>, and it holds neither \<open>&lt;\<close> nor
  \<open>&gt;\<close> anywhere.
\<close>

theorem script_double_escaped:
  "sublist ''<script>'' sq
   \<and> highlightCode sq java = pre_open @ sq3 @ pre_close
   \<and> sublist ''&amp;lt;script&amp;gt;'' (highlightCode sq java)
   \<and> \<not> sublist ''&lt;'' (highlightCode sq java)
   \<and> \<not> sublist ''&gt;'' (highlightCode sq java)"
  unfolding sq_highlight
  by (simp add: sq_def sq3_def pre_open_def pre_close_def sublist_code)

end
